theory Spec2Isabelle
  imports Complex_Main "HOL-Library.Word"
begin

unbundle bit_operations_syntax

section \<open>Literals, watches and the solver state\<close>

text \<open>
  A shallow embedding of \<^verbatim>\<open>src/sat/sat_lookahead.cpp\<close>, the lookahead SAT solver.
  The header \<^verbatim>\<open>sat_lookahead.h\<close> and the literal and vector types are not among the
  sources; what the solver code uses of them is modelled from the specification and
  marked as such.

  Conventions of the embedding:
  \<^item> a \<^verbatim>\<open>literal\<close> is a variable with a sign; its index is \<open>2 * var + sign\<close>, so that
    complement flips the lowest bit;
  \<^item> every per-literal array (\<^verbatim>\<open>m_binary\<close>, \<^verbatim>\<open>m_watches\<close>, \<^verbatim>\<open>m_bstamp\<close>, ...) is a total
    function of the literal index, every per-variable array a total function of the
    variable;
  \<^item> a vector is a list; \<^verbatim>\<open>back()\<close> and \<^verbatim>\<open>pop_back()\<close> of an empty vector, and
    \<^verbatim>\<open>shrink\<close> to more than the size, are outside the behaviour C++ defines. The code
    raises nothing there and runs on; the model cannot follow it past an element it
    would have to read, and ends with the value \<open>Vector_bounds\<close> and the state the
    code has reached by then;
  \<^item> the errors the code does raise are \<open>Cancelled\<close> and \<open>Out_of_memory\<close>, both by
    \<^verbatim>\<open>checkpoint\<close>; \<open>Invariant_violation\<close> is the fatal programmer error of the
    specification, which no statement of the release build raises;
  \<^item> \<^verbatim>\<open>SASSERT\<close>, \<^verbatim>\<open>TRACE\<close> and the statistics counters are compiled out of a release
    build or write-only and are left out; the messages written at verbosity 0 are kept
    in \<open>m_verbose\<close>;
  \<^item> a \<^verbatim>\<open>double\<close> is a \<open>real\<close>: rounding, infinities and NaN are outside the model.
\<close>

datatype literal = Lit (var: nat) (sign: bool)

definition index :: "literal \<Rightarrow> nat" where
  "index l = 2 * var l + (if sign l then 1 else 0)"

definition to_literal :: "nat \<Rightarrow> literal" where
  "to_literal i = Lit (i div 2) (i mod 2 = 1)"

definition neg :: "literal \<Rightarrow> literal" where
  "neg l = Lit (var l) (\<not> sign l)"

text \<open>\<^verbatim>\<open>null_bool_var\<close> is \<^verbatim>\<open>UINT_MAX >> 1\<close>; \<^verbatim>\<open>null_literal\<close> is its positive literal.\<close>

definition null_bool_var :: nat where
  "null_bool_var = 2147483647"

definition null_literal :: literal where
  "null_literal = Lit null_bool_var False"

datatype lbool = l_false | l_undef | l_true

datatype lookahead_mode = searching | lookahead1 | lookahead2

datatype watched =
    BINARY literal bool
  | TERNARY literal literal
  | CLAUSE literal nat
  | EXT_CONSTRAINT nat

datatype message =
    Empty_pop
  | Pop_bad_literal nat nat
  | Adding_assigned_binary literal literal
  | Score_index literal literal nat

datatype error = Cancelled | Out_of_memory | Invariant_violation | Vector_bounds

text \<open>
  The cardinality extension is an external collaborator. Its propagation callback is a
  parameter of the model: from the literal, the constraint index and the current values
  it answers whether the watch is kept, which literals it assigns and whether it reports
  a conflict.
\<close>

type_synonym ext_answer = "bool \<times> literal list \<times> bool"

record config =
  m_tc1_limit :: nat
  m_drat :: bool
  m_alpha :: real
  m_max_score :: real
  m_max_hlevel :: nat
  m_level_cand :: nat
  m_min_cutoff :: nat
  m_delta_rho :: real
  m_dl_max_iterations :: nat
  m_dl_success :: real

text \<open>
  What \<^verbatim>\<open>init\<close> reads of the parent solver \<^verbatim>\<open>m_s\<close>: its watch lists, where a
  \<open>BINARY\<close> watch carries the other literal and the learned flag, its clauses with
  their removed flags, its trail and the variables it has eliminated.
\<close>

record solver =
  s_watches :: "watched list list"
  s_clauses :: "(literal list \<times> bool) list"
  s_learned :: "(literal list \<times> bool) list"
  s_trail :: "literal list"
  s_init_trail_size :: nat
  s_eliminated :: "nat \<Rightarrow> bool"

datatype checkpoint_answer = Proceed | Cancel | Memory_exceeded

text \<open>Per-literal bookkeeping of the implication graph search (\<^verbatim>\<open>dfs_info\<close>).\<close>

record dfs_info =
  dfs_rank :: nat
  dfs_height :: nat
  dfs_parent :: literal
  dfs_next :: "literal list"
  dfs_nextp :: nat
  dfs_link :: literal
  dfs_min :: literal
  dfs_vcomp :: literal

text \<open>
  The state of a \<^verbatim>\<open>lookahead\<close> object. \<open>m_limits\<close> stands for the resource limit and
  the memory ceiling that \<^verbatim>\<open>checkpoint\<close> consults: one answer per call, \<open>Proceed\<close>
  when the list is used up. \<open>m_rand\<close> stands for the parent solver's random number
  generator: one draw per call, 0 when the list is used up.
\<close>

record lookahead =
  m_s :: solver
  m_config :: config
  m_num_vars :: nat
  m_binary :: "nat \<Rightarrow> literal list"
  m_binary_trail :: "nat list"
  m_binary_trail_lim :: "nat list"
  m_num_tc1 :: nat
  m_num_tc1_lim :: "nat list"
  m_cls_allocator :: "nat \<Rightarrow> literal list"
  m_clauses :: "nat list"
  m_retired_clauses :: "nat list"
  m_retired_clause_lim :: "nat list"
  m_retired_ternary :: "(literal \<times> literal \<times> literal) list"
  m_retired_ternary_lim :: "nat list"
  m_watches :: "nat \<Rightarrow> watched list"
  m_full_watches :: "nat \<Rightarrow> nat list"
  m_trail :: "literal list"
  m_trail_lim :: "nat list"
  m_qhead :: nat
  m_qhead_lim :: "nat list"
  m_level :: nat
  m_stamp :: "nat \<Rightarrow> nat"
  m_value :: "nat \<Rightarrow> bool"
  m_inconsistent :: bool
  m_search_mode :: lookahead_mode
  m_bstamp :: "nat \<Rightarrow> 32 word"
  m_bstamp_id :: "32 word"
  m_istamp_id :: "32 word"
  m_double_lookahead :: "nat \<Rightarrow> 32 word"
  m_wnb :: "nat \<Rightarrow> real"
  m_freevars :: "nat list"
  m_assumptions :: "literal list"
  m_drat_out :: "literal list list"
  m_wstack :: "literal list"
  m_weighted_new_binaries :: real
  m_H :: "(nat \<Rightarrow> real) list"
  m_heur :: nat
  m_rating :: "nat \<Rightarrow> real"
  m_candidates :: "(nat \<times> real) list"
  m_dfs :: "nat \<Rightarrow> dfs_info"
  m_rank :: nat
  m_active :: literal
  m_settled :: literal
  m_root_child :: literal
  m_lookahead :: "(literal \<times> nat) list"
  m_delta_trigger :: real
  m_select_lookahead_vars :: "nat list"
  m_prefix :: "64 word"
  m_vprefix :: "nat \<Rightarrow> 32 word \<times> nat"
  m_ext :: "literal \<Rightarrow> nat \<Rightarrow> (literal \<Rightarrow> lbool) \<Rightarrow> ext_answer"
  m_limits :: "checkpoint_answer list"
  m_rand :: "nat list"
  m_verbose :: "message list"
  m_model :: "lbool list"

type_synonym result = "error \<times> lookahead + lookahead"

section \<open>Binary clauses\<close>

text \<open>
  \<^verbatim>\<open>validate_binary\<close>: in searching mode the clause, under the current assumptions, is
  handed to the DRAT sink; \<^verbatim>\<open>m_assumptions\<close> is left as it was.
\<close>

definition validate_binary :: "literal \<Rightarrow> literal \<Rightarrow> lookahead \<Rightarrow> lookahead" where
  "validate_binary l1 l2 s =
     (if m_search_mode s = searching
      then s\<lparr>m_drat_out := m_drat_out s @ [m_assumptions s @ [l1, l2]]\<rparr>
      else s)"

text \<open>
  \<^verbatim>\<open>add_binary\<close>: tautologies are not added; nor is a binary whose second literal is the
  last one recorded for the first.
\<close>

definition add_binary :: "literal \<Rightarrow> literal \<Rightarrow> lookahead \<Rightarrow> lookahead" where
  "add_binary l1 l2 s =
     (if neg l1 = l2 then s
      else if m_binary s (index (neg l1)) \<noteq> [] \<and> last (m_binary s (index (neg l1))) = l2
      then s
      else
        let s1 = s\<lparr>m_binary :=
                   (m_binary s)(index (neg l1) := m_binary s (index (neg l1)) @ [l2])\<rparr>;
            s2 = s1\<lparr>m_binary :=
                   (m_binary s1)(index (neg l2) := m_binary s1 (index (neg l2)) @ [l1])\<rparr>;
            s3 = s2\<lparr>m_binary_trail := m_binary_trail s2 @ [index (neg l1)]\<rparr>
        in if m_drat (m_config s3) then validate_binary l1 l2 s3 else s3)"

text \<open>
  \<^verbatim>\<open>del_binary\<close>: removes the last literal \<open>l\<close> recorded at \<open>idx\<close> and the last literal
  recorded at \<open>\<not>l\<close>. Reading the back of an empty vector is an error of the model.
\<close>

definition del_binary :: "nat \<Rightarrow> lookahead \<Rightarrow> result" where
  "del_binary idx s =
     (let lits = m_binary s idx in
      if lits = [] then Inl (Vector_bounds, s)
      else
        let l = last lits;
            s1 = s\<lparr>m_binary := (m_binary s)(idx := butlast lits)\<rparr>;
            other = m_binary s1 (index (neg l))
        in if other = [] then Inl (Vector_bounds, s1)
           else
             let s2 = (if last other \<noteq> neg (to_literal idx)
                       then s1\<lparr>m_verbose :=
                              m_verbose s1 @ [Pop_bad_literal idx (index (neg l))]\<rparr>
                       else s1)
             in Inr (s2\<lparr>m_binary := (m_binary s2)(index (neg l) := butlast other)\<rparr>))"

section \<open>Stamps\<close>

text \<open>
  \<^verbatim>\<open>inc_bstamp\<close>: the epoch id is a 32-bit unsigned counter; when the increment wraps to
  0 it is incremented once more and the table is filled with 0.
\<close>

definition inc_bstamp :: "lookahead \<Rightarrow> lookahead" where
  "inc_bstamp s =
     (let s1 = s\<lparr>m_bstamp_id := m_bstamp_id s + 1\<rparr> in
      if m_bstamp_id s1 = 0
      then s1\<lparr>m_bstamp_id := m_bstamp_id s1 + 1, m_bstamp := (\<lambda>_. 0)\<rparr>
      else s1)"

text \<open>
  Modelled from the spec: \<^verbatim>\<open>set_bstamp\<close> and \<^verbatim>\<open>is_stamped\<close> are declared in the absent
  header. A literal is marked as in the current neighbourhood by storing the current
  epoch id in its slot, and it is stamped when its slot holds the current epoch id.
\<close>

definition set_bstamp :: "literal \<Rightarrow> lookahead \<Rightarrow> lookahead" where
  "set_bstamp l s = s\<lparr>m_bstamp := (m_bstamp s)(index l := m_bstamp_id s)\<rparr>"

definition is_stamped :: "lookahead \<Rightarrow> literal \<Rightarrow> bool" where
  "is_stamped s l \<longleftrightarrow> m_bstamp s (index l) = m_bstamp_id s"

definition set_bstamps :: "literal \<Rightarrow> lookahead \<Rightarrow> lookahead" where
  "set_bstamps l s =
     (let s1 = set_bstamp l (inc_bstamp s)
      in fold set_bstamp (m_binary s1 (index l)) s1)"

section \<open>Truth values and the trail\<close>

text \<open>
  Modelled from the spec: the truth-value accessors are declared in the absent header.
  Every variable has a truth value and a level stamp; a literal is fixed at level \<open>L\<close>
  iff its stamp is at least \<open>L\<close>; it is fixed when it is fixed at the current level
  \<open>m_level\<close>, and undefined otherwise. Releasing a variable resets its stamp to 0, below
  every level that assigns. \<^verbatim>\<open>c_fixed_truth\<close>, the level of permanent assignments, is
  above every lookahead level; the model takes \<^verbatim>\<open>UINT_MAX - 1\<close>.
\<close>

definition c_fixed_truth :: nat where
  "c_fixed_truth = 4294967294"

definition is_fixed_at :: "lookahead \<Rightarrow> literal \<Rightarrow> nat \<Rightarrow> bool" where
  "is_fixed_at s l lvl \<longleftrightarrow> lvl \<le> m_stamp s (var l)"

definition is_fixed :: "lookahead \<Rightarrow> literal \<Rightarrow> bool" where
  "is_fixed s l \<longleftrightarrow> is_fixed_at s l (m_level s)"

definition is_undef :: "lookahead \<Rightarrow> literal \<Rightarrow> bool" where
  "is_undef s l \<longleftrightarrow> \<not> is_fixed s l"

definition is_true :: "lookahead \<Rightarrow> literal \<Rightarrow> bool" where
  "is_true s l \<longleftrightarrow> is_fixed s l \<and> m_value s (var l) = (\<not> sign l)"

definition is_false :: "lookahead \<Rightarrow> literal \<Rightarrow> bool" where
  "is_false s l \<longleftrightarrow> is_fixed s l \<and> m_value s (var l) = sign l"

definition "value" :: "lookahead \<Rightarrow> literal \<Rightarrow> lbool" where
  "value s l = (if is_undef s l then l_undef else if is_true s l then l_true else l_false)"

definition set_true :: "literal \<Rightarrow> lookahead \<Rightarrow> lookahead" where
  "set_true l s =
     s\<lparr>m_stamp := (m_stamp s)(var l := m_level s),
       m_value := (m_value s)(var l := \<not> sign l)\<rparr>"

definition set_undef :: "literal \<Rightarrow> lookahead \<Rightarrow> lookahead" where
  "set_undef l s = s\<lparr>m_stamp := (m_stamp s)(var l := 0)\<rparr>"

definition set_conflict :: "lookahead \<Rightarrow> lookahead" where
  "set_conflict s = s\<lparr>m_inconsistent := True\<rparr>"

definition inconsistent :: "lookahead \<Rightarrow> bool" where
  "inconsistent s = m_inconsistent s"

definition scope_lvl :: "lookahead \<Rightarrow> nat" where
  "scope_lvl s = length (m_trail_lim s)"

text \<open>
  Modelled from the spec: \<^verbatim>\<open>m_freevars\<close> is a set of variables that is iterated; the
  model keeps it as a duplicate-free list in insertion order.
\<close>

definition freevars_insert :: "nat \<Rightarrow> lookahead \<Rightarrow> lookahead" where
  "freevars_insert v s =
     (if v \<in> set (m_freevars s) then s else s\<lparr>m_freevars := m_freevars s @ [v]\<rparr>)"

definition freevars_remove :: "nat \<Rightarrow> lookahead \<Rightarrow> lookahead" where
  "freevars_remove v s = s\<lparr>m_freevars := removeAll v (m_freevars s)\<rparr>"

definition validate_assign :: "literal \<Rightarrow> lookahead \<Rightarrow> lookahead" where
  "validate_assign l s =
     (if m_drat (m_config s) \<and> m_search_mode s = searching
      then s\<lparr>m_drat_out := m_drat_out s @ [m_assumptions s @ [l]]\<rparr>
      else s)"

definition assign :: "literal \<Rightarrow> lookahead \<Rightarrow> lookahead" where
  "assign l s =
     (if is_undef s l then
        let s1 = set_true l s;
            s2 = s1\<lparr>m_trail := m_trail s1 @ [l]\<rparr>
        in if m_search_mode s2 = searching
           then validate_assign l (freevars_remove (var l) s2)
           else s2
      else if is_false s l then set_conflict (validate_assign l s)
      else s)"

definition propagated :: "literal \<Rightarrow> lookahead \<Rightarrow> lookahead" where
  "propagated l s =
     (let s1 = assign l s in
      case m_search_mode s1 of
        searching \<Rightarrow> s1
      | lookahead1 \<Rightarrow> s1\<lparr>m_wstack := m_wstack s1 @ [l]\<rparr>
      | lookahead2 \<Rightarrow> s1)"

section \<open>Prefixes\<close>

definition flip_prefix :: "lookahead \<Rightarrow> lookahead" where
  "flip_prefix s =
     (if length (m_trail_lim s) < 64 then
        let mask = (push_bit (length (m_trail_lim s)) 1 :: 64 word)
        in s\<lparr>m_prefix := mask OR (m_prefix s AND (mask - 1))\<rparr>
      else s)"

definition update_prefix :: "literal \<Rightarrow> lookahead \<Rightarrow> lookahead" where
  "update_prefix l s =
     (let x = var l;
          p = fst (m_vprefix s x);
          pl = snd (m_vprefix s x);
          mask = (push_bit (min 31 pl) 1 - 1 :: 32 word)
      in if length (m_trail_lim s) \<le> pl
            \<or> ucast (p AND mask) \<noteq> m_prefix s AND ucast mask
         then s\<lparr>m_vprefix := (m_vprefix s)(x := (ucast (m_prefix s), length (m_trail_lim s)))\<rparr>
         else s)"

section \<open>Dynamic binary clauses\<close>

text \<open>
  \<^verbatim>\<open>add_tc1\<close>: the loop runs over the literals recorded for \<open>v\<close> when it starts; it
  answers \<open>False\<close> when it learns the unit \<open>u\<close>.
\<close>

fun add_tc1_loop :: "literal \<Rightarrow> literal list \<Rightarrow> lookahead \<Rightarrow> bool \<times> lookahead" where
  "add_tc1_loop u [] s = (True, s)"
| "add_tc1_loop u (w # ws) s =
     (if \<not> is_fixed s w then
        if is_stamped s (neg w) then (False, assign u s)
        else if m_num_tc1 s < m_tc1_limit (m_config s)
        then add_tc1_loop u ws (add_binary u w (s\<lparr>m_num_tc1 := m_num_tc1 s + 1\<rparr>))
        else add_tc1_loop u ws s
      else add_tc1_loop u ws s)"

definition add_tc1 :: "literal \<Rightarrow> literal \<Rightarrow> lookahead \<Rightarrow> bool \<times> lookahead" where
  "add_tc1 u v s = add_tc1_loop u (m_binary s (index v)) s"

definition try_add_binary :: "literal \<Rightarrow> literal \<Rightarrow> lookahead \<Rightarrow> lookahead" where
  "try_add_binary u v s =
     (let s0 = (if \<not> is_undef s u \<or> \<not> is_undef s v
                then s\<lparr>m_verbose := m_verbose s @ [Adding_assigned_binary v u]\<rparr>
                else s);
          s1 = set_bstamps (neg u) s0
      in if is_stamped s1 (neg v) then assign u s1
         else if is_stamped s1 v then s1
         else
           let (ok1, s2) = add_tc1 u v s1 in
           if \<not> ok1 then s2
           else
             let s3 = set_bstamps (neg v) s2 in
             if is_stamped s3 (neg u) then assign v s3
             else
               let (ok2, s4) = add_tc1 v u s3 in
               if \<not> ok2 then s4
               else add_binary u v (update_prefix v (update_prefix u s4)))"

section \<open>Clause management\<close>

text \<open>
  A clause is named by its offset in \<^verbatim>\<open>m_cls_allocator\<close>; the clauses the solver stores
  have at least three literals. Modelled from the spec: \<^verbatim>\<open>erase_clause_watch\<close> and
  \<^verbatim>\<open>erase_ternary_watch\<close> belong to the absent watch-list code; they take the first
  watch of the clause, or of the two literals in either order, out of the list.
\<close>

fun erase_clause_watch :: "watched list \<Rightarrow> nat \<Rightarrow> watched list" where
  "erase_clause_watch [] off = []"
| "erase_clause_watch (CLAUSE b c # ws) off =
     (if c = off then ws else CLAUSE b c # erase_clause_watch ws off)"
| "erase_clause_watch (w # ws) off = w # erase_clause_watch ws off"

fun erase_ternary_watch :: "watched list \<Rightarrow> literal \<Rightarrow> literal \<Rightarrow> watched list" where
  "erase_ternary_watch [] l1 l2 = []"
| "erase_ternary_watch (TERNARY a b # ws) l1 l2 =
     (if (a = l1 \<and> b = l2) \<or> (a = l2 \<and> b = l1) then ws
      else TERNARY a b # erase_ternary_watch ws l1 l2)"
| "erase_ternary_watch (w # ws) l1 l2 = w # erase_ternary_watch ws l1 l2"

definition push_watch :: "literal \<Rightarrow> watched \<Rightarrow> lookahead \<Rightarrow> lookahead" where
  "push_watch l w s = s\<lparr>m_watches := (m_watches s)(index l := m_watches s (index l) @ [w])\<rparr>"

definition attach_ternary :: "literal \<Rightarrow> literal \<Rightarrow> literal \<Rightarrow> lookahead \<Rightarrow> lookahead" where
  "attach_ternary l1 l2 l3 s =
     push_watch (neg l3) (TERNARY l1 l2)
       (push_watch (neg l2) (TERNARY l1 l3)
         (push_watch (neg l1) (TERNARY l2 l3) s))"

definition attach_clause :: "nat \<Rightarrow> lookahead \<Rightarrow> lookahead" where
  "attach_clause off s =
     (let c = m_cls_allocator s off in
      if length c = 3 then attach_ternary (c ! 0) (c ! 1) (c ! 2) s
      else
        let block_lit = c ! (length c div 4)
        in push_watch (neg (c ! 1)) (CLAUSE block_lit off)
             (push_watch (neg (c ! 0)) (CLAUSE block_lit off) s))"

definition detach_clause :: "nat \<Rightarrow> lookahead \<Rightarrow> lookahead" where
  "detach_clause off s =
     (let c = m_cls_allocator s off;
          s1 = s\<lparr>m_retired_clauses := m_retired_clauses s @ [off]\<rparr>;
          s2 = s1\<lparr>m_watches := (m_watches s1)(index (neg (c ! 0)) :=
                  erase_clause_watch (m_watches s1 (index (neg (c ! 0)))) off)\<rparr>
      in s2\<lparr>m_watches := (m_watches s2)(index (neg (c ! 1)) :=
                  erase_clause_watch (m_watches s2 (index (neg (c ! 1)))) off)\<rparr>)"

definition detach_ternary :: "literal \<Rightarrow> literal \<Rightarrow> literal \<Rightarrow> lookahead \<Rightarrow> lookahead" where
  "detach_ternary l1 l2 l3 s =
     (let s1 = s\<lparr>m_retired_ternary := m_retired_ternary s @ [(l1, l2, l3)]\<rparr>;
          s2 = s1\<lparr>m_watches := (m_watches s1)(index (neg l2) :=
                  erase_ternary_watch (m_watches s1 (index (neg l2))) l1 l3)\<rparr>
      in s2\<lparr>m_watches := (m_watches s2)(index (neg l3) :=
                  erase_ternary_watch (m_watches s2 (index (neg l3))) l1 l2)\<rparr>)"

section \<open>Propagation\<close>

definition heur :: "lookahead \<Rightarrow> nat \<Rightarrow> real" where
  "heur s i = (m_H s ! m_heur s) i"

definition propagate_ternary_watch ::
  "literal \<Rightarrow> literal \<Rightarrow> literal \<Rightarrow> lookahead \<Rightarrow> watched list \<times> lookahead" where
  "propagate_ternary_watch l l1 l2 s =
     (if is_fixed s l1 then
        if is_false s l1 then
          if is_undef s l2 then ([TERNARY l1 l2], propagated l2 s)
          else if is_false s l2 then ([TERNARY l1 l2], set_conflict s)
          else ([TERNARY l1 l2], s)
        else ([TERNARY l1 l2], s)
      else if is_fixed s l2 then
        if is_false s l2 then ([TERNARY l1 l2], propagated l1 s)
        else ([TERNARY l1 l2], s)
      else
        case m_search_mode s of
          searching \<Rightarrow> ([], try_add_binary l1 l2 (detach_ternary (neg l) l1 l2 s))
        | lookahead1 \<Rightarrow>
            ([TERNARY l1 l2],
             s\<lparr>m_weighted_new_binaries :=
                 m_weighted_new_binaries s + heur s (index l1) * heur s (index l2)\<rparr>)
        | lookahead2 \<Rightarrow> ([TERNARY l1 l2], s))"

fun find_pos :: "('a \<Rightarrow> bool) \<Rightarrow> 'a list \<Rightarrow> nat \<Rightarrow> nat option" where
  "find_pos P [] i = None"
| "find_pos P (x # xs) i = (if P x then Some i else find_pos P xs (Suc i))"

text \<open>
  One \<^verbatim>\<open>CLAUSE\<close> watch of the list of \<open>l\<close>: the answer is the watch as it stays in the
  list (none when the watch moved to another literal) and the new state.
\<close>

definition propagate_clause_watch ::
  "literal \<Rightarrow> literal \<Rightarrow> nat \<Rightarrow> lookahead \<Rightarrow> watched list \<times> lookahead" where
  "propagate_clause_watch l blocked off s =
     (if is_true s blocked then ([CLAUSE blocked off], s)
      else
        let c0 = m_cls_allocator s off;
            c = (if c0 ! 0 = neg l then c0[0 := c0 ! 1, 1 := c0 ! 0] else c0);
            s1 = s\<lparr>m_cls_allocator := (m_cls_allocator s)(off := c)\<rparr>
        in if is_true s1 (c ! 0) then ([CLAUSE (c ! 0) off], s1)
           else
             case find_pos (\<lambda>x. \<not> is_false s1 x) (drop 2 c) 2 of
               Some k \<Rightarrow>
                 let c' = c[1 := c ! k, k := neg l];
                     s2 = push_watch (neg (c' ! 1)) (CLAUSE (c' ! 0) off)
                            (s1\<lparr>m_cls_allocator := (m_cls_allocator s1)(off := c')\<rparr>);
                     found = list_ex (\<lambda>x. \<not> is_false s2 x) (drop (Suc k) c')
                 in if \<not> found \<and> is_undef s2 (c' ! 1) \<and> is_undef s2 (c' ! 0) then
                      case m_search_mode s2 of
                        searching \<Rightarrow>
                          ([], try_add_binary (c' ! 0) (c' ! 1) (detach_clause off s2))
                      | lookahead1 \<Rightarrow>
                          ([], s2\<lparr>m_weighted_new_binaries :=
                                   m_weighted_new_binaries s2
                                   + heur s2 (index (c' ! 0)) * heur s2 (index (c' ! 1))\<rparr>)
                      | lookahead2 \<Rightarrow> ([], s2)
                    else if found \<and> m_search_mode s2 = lookahead1
                            \<and> m_weighted_new_binaries s2 = 0 then
                      if list_ex (is_true s2) (drop 2 c') then ([], s2)
                      else ([], s2\<lparr>m_weighted_new_binaries := 0.001\<rparr>)
                    else ([], s2)
             | None \<Rightarrow>
                 if is_false s1 (c ! 0) then ([CLAUSE blocked off], set_conflict s1)
                 else ([CLAUSE blocked off], propagated (c ! 0) s1))"

definition propagate_ext_watch ::
  "literal \<Rightarrow> nat \<Rightarrow> lookahead \<Rightarrow> watched list \<times> lookahead" where
  "propagate_ext_watch l idx s =
     (let (keep, lits, conflict) = m_ext s l idx (value s);
          s1 = fold assign lits s;
          s2 = (if conflict then set_conflict s1 else s1)
      in if m_inconsistent s2 then ([], set_conflict s2)
         else if keep then ([EXT_CONSTRAINT idx], s2)
         else ([], s2))"

fun propagate_watch :: "literal \<Rightarrow> watched \<Rightarrow> lookahead \<Rightarrow> watched list \<times> lookahead" where
  "propagate_watch l (BINARY l1 learned) s = ([], s)"
| "propagate_watch l (TERNARY l1 l2) s = propagate_ternary_watch l l1 l2 s"
| "propagate_watch l (CLAUSE blocked off) s = propagate_clause_watch l blocked off s"
| "propagate_watch l (EXT_CONSTRAINT idx) s = propagate_ext_watch l idx s"

text \<open>
  The loop of \<^verbatim>\<open>propagate_clauses\<close> over the watch list of \<open>l\<close> as it stands when the
  call starts: \<open>kept\<close> is the part of the list already written back, and on a conflict
  the watches not yet visited stay in the list.
\<close>

fun propagate_clauses_loop ::
  "literal \<Rightarrow> watched list \<Rightarrow> watched list \<Rightarrow> lookahead \<Rightarrow> watched list \<times> lookahead" where
  "propagate_clauses_loop l [] kept s = (kept, s)"
| "propagate_clauses_loop l (w # ws) kept s =
     (if inconsistent s then (kept @ w # ws, s)
      else
        let (k, s') = propagate_watch l w s
        in propagate_clauses_loop l ws (kept @ k) s')"

definition propagate_clauses :: "literal \<Rightarrow> lookahead \<Rightarrow> lookahead" where
  "propagate_clauses l s =
     (if inconsistent s then s
      else
        let (kept, s') = propagate_clauses_loop l (m_watches s (index l)) [] s
        in s'\<lparr>m_watches := (m_watches s')(index l := kept)\<rparr>)"

fun propagate_binary_loop :: "literal list \<Rightarrow> lookahead \<Rightarrow> lookahead" where
  "propagate_binary_loop [] s = s"
| "propagate_binary_loop (w # ws) s =
     (if inconsistent s then s else propagate_binary_loop ws (assign w s))"

definition propagate_binary :: "literal \<Rightarrow> lookahead \<Rightarrow> lookahead" where
  "propagate_binary l s = propagate_binary_loop (m_binary s (index l)) s"

fun propagate_binary_pass :: "literal list \<Rightarrow> lookahead \<Rightarrow> lookahead" where
  "propagate_binary_pass [] s = s"
| "propagate_binary_pass (l # ls) s =
     (if inconsistent s then s else propagate_binary_pass ls (propagate_binary l s))"

fun propagate_clauses_pass :: "literal list \<Rightarrow> lookahead \<Rightarrow> lookahead" where
  "propagate_clauses_pass [] s = s"
| "propagate_clauses_pass (l # ls) s =
     (if inconsistent s then s else propagate_clauses_pass ls (propagate_clauses l s))"

text \<open>
  \<^verbatim>\<open>propagate\<close>: each round handles the window of the trail from \<open>m_qhead\<close> to the
  size the trail has when the round starts, first the binary clauses of every literal
  of the window, then its watch lists. The loop need not end for every state of the
  model, so not returning is the value \<open>None\<close>.
\<close>

partial_function (option) propagate :: "lookahead \<Rightarrow> lookahead option" where
  "propagate s =
     (if \<not> inconsistent s \<and> m_qhead s < length (m_trail s) then
        let sz = length (m_trail s);
            window = drop (m_qhead s) (m_trail s);
            s1 = propagate_binary_pass window s;
            s2 = propagate_clauses_pass window s1
        in propagate (s2\<lparr>m_qhead := sz\<rparr>)
      else Some s)"

section \<open>Scopes of the search\<close>

text \<open>
  \<^verbatim>\<open>scoped_level\<close> sets \<open>m_level\<close> for the extent of a block and puts the former level
  back when the block is left.
\<close>

definition push :: "literal \<Rightarrow> nat \<Rightarrow> lookahead \<Rightarrow> lookahead option" where
  "push lit level s =
     (let s1 = s\<lparr>m_binary_trail_lim := m_binary_trail_lim s @ [length (m_binary_trail s)],
                  m_trail_lim := m_trail_lim s @ [length (m_trail s)],
                  m_num_tc1_lim := m_num_tc1_lim s @ [m_num_tc1 s],
                  m_retired_clause_lim := m_retired_clause_lim s @ [length (m_retired_clauses s)],
                  m_retired_ternary_lim :=
                    m_retired_ternary_lim s @ [length (m_retired_ternary s)],
                  m_qhead_lim := m_qhead_lim s @ [m_qhead s]\<rparr>;
          s2 = s1\<lparr>m_level := level\<rparr>;
          s3 = s2\<lparr>m_assumptions := m_assumptions s2 @ [neg lit]\<rparr>
      in case propagate (assign lit s3) of
           None \<Rightarrow> None
         | Some s4 \<Rightarrow> Some (s4\<lparr>m_level := m_level s\<rparr>))"

definition rbind :: "result \<Rightarrow> (lookahead \<Rightarrow> result) \<Rightarrow> result" where
  "rbind r f = (case r of Inl e \<Rightarrow> Inl e | Inr s \<Rightarrow> f s)"

text \<open>
  The blocks of \<^verbatim>\<open>pop\<close>, in the order of the source. The first block is the guard,
  which only writes its message, \<^verbatim>\<open>m_assumptions.pop_back()\<close> and
  \<^verbatim>\<open>m_inconsistent = false\<close>. A \<^verbatim>\<open>pop_back()\<close> of the empty vector reads no element: the
  code goes on to clear the conflict flag, and the model ends there, before the read of
  \<^verbatim>\<open>m_trail_lim\<close>, with the assumption vector no longer a list it can describe.
\<close>

definition pop_assumption :: "lookahead \<Rightarrow> result" where
  "pop_assumption s =
     (let s1 = (if m_assumptions s = [] then s\<lparr>m_verbose := m_verbose s @ [Empty_pop]\<rparr>
                else s)
      in if m_assumptions s1 = [] then Inl (Vector_bounds, s1\<lparr>m_inconsistent := False\<rparr>)
         else Inr (s1\<lparr>m_assumptions := butlast (m_assumptions s1), m_inconsistent := False\<rparr>))"

definition pop_trail :: "lookahead \<Rightarrow> result" where
  "pop_trail s =
     (if m_trail_lim s = [] then Inl (Vector_bounds, s)
      else
        let old_sz = last (m_trail_lim s);
            s1 = fold (\<lambda>l t. freevars_insert (var l) (set_undef l t))
                   (rev (drop old_sz (m_trail s))) s
        in if length (m_trail s1) < old_sz then Inl (Vector_bounds, s1)
           else Inr (s1\<lparr>m_trail := take old_sz (m_trail s1),
                         m_trail_lim := butlast (m_trail_lim s1)\<rparr>))"

definition pop_num_tc1 :: "lookahead \<Rightarrow> result" where
  "pop_num_tc1 s =
     (if m_num_tc1_lim s = [] then Inl (Vector_bounds, s)
      else Inr (s\<lparr>m_num_tc1 := last (m_num_tc1_lim s),
                   m_num_tc1_lim := butlast (m_num_tc1_lim s)\<rparr>))"

text \<open>\<^verbatim>\<open>resize\<close> to more than the size pads with null pointers, offset 0 in the model.\<close>

definition resize :: "nat \<Rightarrow> nat list \<Rightarrow> nat list" where
  "resize n xs = take n xs @ replicate (n - length xs) 0"

definition pop_retired_clauses :: "lookahead \<Rightarrow> result" where
  "pop_retired_clauses s =
     (if m_retired_clause_lim s = [] then Inl (Vector_bounds, s)
      else
        let old_sz = last (m_retired_clause_lim s);
            s1 = fold attach_clause (drop old_sz (m_retired_clauses s)) s
        in Inr (s1\<lparr>m_retired_clauses := resize old_sz (m_retired_clauses s1),
                     m_retired_clause_lim := butlast (m_retired_clause_lim s1)\<rparr>))"

definition pop_retired_ternary :: "lookahead \<Rightarrow> result" where
  "pop_retired_ternary s =
     (if m_retired_ternary_lim s = [] then Inl (Vector_bounds, s)
      else
        let old_sz = last (m_retired_ternary_lim s);
            s1 = fold (\<lambda>(u, v, w). attach_ternary u v w) (drop old_sz (m_retired_ternary s)) s
        in if length (m_retired_ternary s1) < old_sz then Inl (Vector_bounds, s1)
           else Inr (s1\<lparr>m_retired_ternary := take old_sz (m_retired_ternary s1),
                         m_retired_ternary_lim := butlast (m_retired_ternary_lim s1)\<rparr>))"

fun del_binaries :: "nat list \<Rightarrow> lookahead \<Rightarrow> result" where
  "del_binaries [] s = Inr s"
| "del_binaries (idx # idxs) s = rbind (del_binary idx s) (del_binaries idxs)"

definition pop_binaries :: "lookahead \<Rightarrow> result" where
  "pop_binaries s =
     (if m_binary_trail_lim s = [] then Inl (Vector_bounds, s)
      else
        let old_sz = last (m_binary_trail_lim s)
        in rbind (del_binaries (rev (drop old_sz (m_binary_trail s))) s)
             (\<lambda>s1. if length (m_binary_trail s1) < old_sz then Inl (Vector_bounds, s1)
                   else Inr (s1\<lparr>m_binary_trail := take old_sz (m_binary_trail s1),
                                 m_binary_trail_lim := butlast (m_binary_trail_lim s1)\<rparr>)))"

definition pop_qhead :: "lookahead \<Rightarrow> result" where
  "pop_qhead s =
     (if m_qhead_lim s = [] then Inl (Vector_bounds, s)
      else Inr (s\<lparr>m_qhead := last (m_qhead_lim s), m_qhead_lim := butlast (m_qhead_lim s)\<rparr>))"

definition pop :: "lookahead \<Rightarrow> result" where
  "pop s =
     rbind (pop_assumption s) (\<lambda>s1.
     rbind (pop_trail s1) (\<lambda>s2.
     rbind (pop_num_tc1 s2) (\<lambda>s3.
     rbind (pop_retired_clauses s3) (\<lambda>s4.
     rbind (pop_retired_ternary s4) (\<lambda>s5.
     rbind (pop_binaries s5) pop_qhead)))))"

section \<open>Lookahead scopes\<close>

definition push_lookahead2 :: "literal \<Rightarrow> nat \<Rightarrow> lookahead \<Rightarrow> (bool \<times> lookahead) option" where
  "push_lookahead2 lit level s =
     (let s1 = s\<lparr>m_level := level\<rparr>;
          s2 = s1\<lparr>m_search_mode := lookahead2\<rparr>
      in case propagate (assign lit s2) of
           None \<Rightarrow> None
         | Some s3 \<Rightarrow>
             Some (inconsistent s3,
                   s3\<lparr>m_search_mode := lookahead1, m_inconsistent := False,
                      m_level := m_level s\<rparr>))"

text \<open>
  \<^verbatim>\<open>push_lookahead1\<close> is followed in \<^verbatim>\<open>compute_wnb\<close> by \<^verbatim>\<open>do_double\<close> and
  \<^verbatim>\<open>pop_lookahead1\<close>; the level it sets lasts for its own block only.
\<close>

definition push_lookahead1 :: "literal \<Rightarrow> nat \<Rightarrow> lookahead \<Rightarrow> lookahead option" where
  "push_lookahead1 lit level s =
     (let s1 = s\<lparr>m_search_mode := lookahead1\<rparr>;
          s2 = s1\<lparr>m_level := level\<rparr>
      in case propagate (assign lit s2) of
           None \<Rightarrow> None
         | Some s3 \<Rightarrow> Some (s3\<lparr>m_level := m_level s\<rparr>))"

definition pop_lookahead1 :: "literal \<Rightarrow> lookahead \<Rightarrow> lookahead" where
  "pop_lookahead1 lit s =
     (let unsat = inconsistent s;
          s1 = s\<lparr>m_inconsistent := False, m_search_mode := searching\<rparr>;
          s2 = (if \<not> unsat then fold (\<lambda>l2. add_binary (neg lit) l2) (m_wstack s1) s1 else s1)
      in s2\<lparr>m_wstack := []\<rparr>)"

definition init_wnb :: "lookahead \<Rightarrow> lookahead" where
  "init_wnb s =
     s\<lparr>m_qhead_lim := m_qhead_lim s @ [m_qhead s],
       m_trail_lim := m_trail_lim s @ [length (m_trail s)]\<rparr>"

definition reset_wnb :: "lookahead \<Rightarrow> result" where
  "reset_wnb s =
     (if m_qhead_lim s = [] then Inl (Vector_bounds, s)
      else
        let s1 = s\<lparr>m_qhead := last (m_qhead_lim s)\<rparr> in
        if m_trail_lim s1 = [] then Inl (Vector_bounds, s1)
        else
          let old_sz = last (m_trail_lim s1);
              s2 = fold set_undef (drop old_sz (m_trail s1)) s1
          in if length (m_trail s2) < old_sz then Inl (Vector_bounds, s2)
             else Inr (s2\<lparr>m_trail := take old_sz (m_trail s2),
                           m_trail_lim := butlast (m_trail_lim s2),
                           m_qhead_lim := butlast (m_qhead_lim s2)\<rparr>))"

section \<open>Initialization\<close>

definition dfs_reset :: dfs_info where
  "dfs_reset =
     \<lparr>dfs_rank = 0, dfs_height = 0, dfs_parent = null_literal, dfs_next = [], dfs_nextp = 0,
      dfs_link = null_literal, dfs_min = null_literal, dfs_vcomp = null_literal\<rparr>"

text \<open>
  \<^verbatim>\<open>init_var\<close> appends one slot per variable and two per literal to the arrays; in the
  model these are the slots of variable \<open>v\<close> and of its two literals.
\<close>

definition init_var :: "nat \<Rightarrow> lookahead \<Rightarrow> lookahead" where
  "init_var v s =
     (let s1 = s\<lparr>m_binary := (m_binary s)(2 * v := [], 2 * v + 1 := []),
                  m_watches := (m_watches s)(2 * v := [], 2 * v + 1 := []),
                  m_full_watches := (m_full_watches s)(2 * v := [], 2 * v + 1 := []),
                  m_bstamp := (m_bstamp s)(2 * v := 0, 2 * v + 1 := 0),
                  m_stamp := (m_stamp s)(v := 0),
                  m_dfs := (m_dfs s)(2 * v := dfs_reset, 2 * v + 1 := dfs_reset),
                  m_wnb := (m_wnb s)(2 * v := 0, 2 * v + 1 := 0),
                  m_double_lookahead := (m_double_lookahead s)(2 * v := 0, 2 * v + 1 := 0),
                  m_rating := (m_rating s)(v := 0),
                  m_vprefix := (m_vprefix s)(v := (0, 0))\<rparr>
      in if \<not> s_eliminated (m_s s1) v then freevars_insert v s1 else s1)"

definition copy_binary :: "nat \<Rightarrow> watched \<Rightarrow> lookahead \<Rightarrow> lookahead" where
  "copy_binary l_idx w s =
     (case w of
        BINARY l2 learned \<Rightarrow>
          if \<not> learned \<and> index (neg (to_literal l_idx)) < index l2
          then add_binary (neg (to_literal l_idx)) l2 s
          else s
      | _ \<Rightarrow> s)"

text \<open>
  \<^verbatim>\<open>copy_clauses\<close>: every clause that is not removed is copied into the allocator, under
  the next free offset (offset 0 is the null pointer), attached, and recorded in the
  full watch list of the complement of each of its literals.
\<close>

definition copy_clause :: "literal list \<times> bool \<Rightarrow> lookahead \<Rightarrow> lookahead" where
  "copy_clause cr s =
     (let (c, removed) = cr in
      if removed then s
      else
        let off = Suc (length (m_clauses s));
            s1 = s\<lparr>m_cls_allocator := (m_cls_allocator s)(off := c),
                    m_clauses := m_clauses s @ [off]\<rparr>;
            s2 = attach_clause off s1;
            s3 = fold (\<lambda>l t. t\<lparr>m_full_watches :=
                         (m_full_watches t)(index (neg l) := m_full_watches t (index (neg l)) @ [off])\<rparr>)
                   c s2
        in if m_drat (m_config s3) then s3\<lparr>m_drat_out := m_drat_out s3 @ [c]\<rparr> else s3)"

definition copy_clauses :: "(literal list \<times> bool) list \<Rightarrow> lookahead \<Rightarrow> lookahead" where
  "copy_clauses cs s = fold copy_clause cs s"

definition copy_unit :: "literal \<Rightarrow> lookahead \<Rightarrow> lookahead" where
  "copy_unit l s =
     (if \<not> s_eliminated (m_s s) (var l) then
        assign l (if m_drat (m_config s) then s\<lparr>m_drat_out := m_drat_out s @ [[l]]\<rparr> else s)
      else s)"

definition is_ext_constraint :: "watched \<Rightarrow> bool" where
  "is_ext_constraint w = (case w of EXT_CONSTRAINT idx \<Rightarrow> True | _ \<Rightarrow> False)"

definition copy_externals :: "nat \<Rightarrow> lookahead \<Rightarrow> lookahead" where
  "copy_externals idx s =
     s\<lparr>m_watches := (m_watches s)(idx :=
         m_watches s idx @ filter is_ext_constraint (m_watches s idx))\<rparr>"

definition init :: "lookahead \<Rightarrow> lookahead option" where
  "init s =
     (let s1 = s\<lparr>m_delta_trigger := real (m_num_vars s div 10),
                  m_config := (m_config s)\<lparr>m_dl_success := 0.8\<rparr>,
                  m_inconsistent := False, m_qhead := 0, m_bstamp_id := 0\<rparr>;
          s2 = fold init_var [0..<m_num_vars s1] s1;
          s3 = fold (\<lambda>l_idx t. fold (copy_binary l_idx) (s_watches (m_s t) ! l_idx) t)
                 [0..<length (s_watches (m_s s2))] s2;
          s4 = copy_clauses (s_learned (m_s s3)) (copy_clauses (s_clauses (m_s s3)) s3);
          s5 = fold copy_unit (take (s_init_trail_size (m_s s4)) (s_trail (m_s s4))) s4;
          s6 = fold copy_externals [0..<2 * m_num_vars s5] s5
      in case propagate s6 of
           None \<Rightarrow> None
         | Some s7 \<Rightarrow> Some (s7\<lparr>m_qhead := length (m_trail s7)\<rparr>))"

definition init_search :: "lookahead \<Rightarrow> lookahead option" where
  "init_search s =
     (case init (s\<lparr>m_search_mode := searching, m_level := c_fixed_truth\<rparr>) of
        None \<Rightarrow> None
      | Some s1 \<Rightarrow> Some (s1\<lparr>m_level := m_level s\<rparr>))"

section \<open>Weighted new binaries\<close>

text \<open>
  Modelled from the spec: the accessors of the per-literal lookahead data are declared
  in the absent header. \<open>WNB(l)\<close> is kept per literal; \<^verbatim>\<open>get_parent\<close> reads the parent
  recorded in the DFS data; \<^verbatim>\<open>set_level\<close> lifts the level of a literal to that of
  another one, keeping the literal true.
\<close>

definition get_wnb :: "lookahead \<Rightarrow> literal \<Rightarrow> real" where
  "get_wnb s l = m_wnb s (index l)"

definition set_wnb :: "literal \<Rightarrow> real \<Rightarrow> lookahead \<Rightarrow> lookahead" where
  "set_wnb l f s = s\<lparr>m_wnb := (m_wnb s)(index l := f)\<rparr>"

definition inc_wnb :: "literal \<Rightarrow> real \<Rightarrow> lookahead \<Rightarrow> lookahead" where
  "inc_wnb l f s = s\<lparr>m_wnb := (m_wnb s)(index l := m_wnb s (index l) + f)\<rparr>"

definition get_parent :: "lookahead \<Rightarrow> literal \<Rightarrow> literal" where
  "get_parent s l = dfs_parent (m_dfs s (index l))"

definition set_level :: "literal \<Rightarrow> literal \<Rightarrow> lookahead \<Rightarrow> lookahead" where
  "set_level d p s =
     s\<lparr>m_stamp := (m_stamp s)(var d := m_stamp s (var p)),
       m_value := (m_value s)(var d := \<not> sign d)\<rparr>"

definition reset_wnb_lit :: "literal \<Rightarrow> lookahead \<Rightarrow> lookahead" where
  "reset_wnb_lit l s =
     (let s1 = s\<lparr>m_weighted_new_binaries := 0\<rparr>;
          p = get_parent s1 l
      in set_wnb l (if p = null_literal then 0 else get_wnb s1 p) s1)"

text \<open>
  \<^verbatim>\<open>check_autarky\<close> returns \<open>false\<close> in its first statement. The statements after it
  are never run; \<open>check_autarky_body\<close> is what they compute.
\<close>

definition check_autarky :: "literal \<Rightarrow> nat \<Rightarrow> lookahead \<Rightarrow> bool" where
  "check_autarky l level s = False"

definition check_autarky_body :: "literal \<Rightarrow> nat \<Rightarrow> lookahead \<Rightarrow> bool" where
  "check_autarky_body l level s =
     (if list_ex (\<lambda>off. \<not> list_ex (is_true s) (m_cls_allocator s off))
           (m_full_watches s (index l))
      then False
      else if list_ex (\<lambda>l2. \<not> is_true s l2) (m_binary s (index l)) then False
      else True)"

definition update_wnb :: "literal \<Rightarrow> nat \<Rightarrow> lookahead \<Rightarrow> result option" where
  "update_wnb l level s =
     (if m_weighted_new_binaries s = 0 then
        if \<not> check_autarky l level s then Some (Inr s)
        else if get_wnb s l = 0 then
          case reset_wnb s of
            Inl e \<Rightarrow> Some (Inl e)
          | Inr s1 \<Rightarrow>
              (case propagate (assign l s1) of
                 None \<Rightarrow> None
               | Some s2 \<Rightarrow> Some (Inr (init_wnb s2)))
        else
          let p = get_parent s l in
          if m_stamp s (var l) < m_stamp s (var p)
          then Some (Inr (set_level l p (add_binary (neg l) p s)))
          else Some (Inr s)
      else Some (Inr (inc_wnb l (m_weighted_new_binaries s) s)))"

section \<open>Model extraction\<close>

text \<open>
  \<^verbatim>\<open>init_model\<close>: the value stored for a variable is the one the second conditional
  assigns; the \<^verbatim>\<open>l_undef\<close> of the first conditional is overwritten by it.
\<close>

definition model_value :: "lookahead \<Rightarrow> nat \<Rightarrow> lbool" where
  "model_value s i =
     (let lit = Lit i False;
          val1 = (if is_undef s lit then Some l_undef else None);
          val2 = (if is_true s lit then Some l_true else Some l_false)
      in case val2 of Some v \<Rightarrow> v | None \<Rightarrow> (case val1 of Some v \<Rightarrow> v | None \<Rightarrow> l_undef))"

definition init_model :: "lookahead \<Rightarrow> lookahead" where
  "init_model s = s\<lparr>m_model := map (model_value s) [0..<m_num_vars s]\<rparr>"

definition get_model :: "lookahead \<Rightarrow> lbool list \<times> lookahead" where
  "get_model s = (let s1 = (if m_model s = [] then init_model s else s) in (m_model s1, s1))"

section \<open>Results of operations that may fail or not return\<close>

text \<open>
  An operation that runs \<^verbatim>\<open>propagate\<close> may not return (\<open>None\<close>); one that reaches a
  \<^verbatim>\<open>checkpoint\<close> or reads a scope stack may end in an error, which carries the state
  the solver is left in.
\<close>

type_synonym 'a res = "(error \<times> lookahead + 'a) option"

definition obind :: "'a res \<Rightarrow> ('a \<Rightarrow> 'b res) \<Rightarrow> 'b res" where
  "obind m f =
     (case m of None \<Rightarrow> None | Some r \<Rightarrow> (case r of Inl e \<Rightarrow> Some (Inl e) | Inr x \<Rightarrow> f x))"

definition oret :: "'a \<Rightarrow> 'a res" where
  "oret x = Some (Inr x)"

definition of_option :: "'a option \<Rightarrow> 'a res" where
  "of_option m = (case m of None \<Rightarrow> None | Some x \<Rightarrow> Some (Inr x))"

definition of_result :: "result \<Rightarrow> lookahead res" where
  "of_result r = Some r"

lemma obind_mono [partial_function_mono]:
  assumes mf: "mono_option B" and mg: "\<And>y. mono_option (\<lambda>f. C y f)"
  shows "mono_option (\<lambda>f. obind (B f) (\<lambda>y. C y f))"
proof (rule monotoneI)
  fix f g :: "'a \<Rightarrow> 'b option"
  assume fg: "fun_ord option_ord f g"
  from mf fg have 1: "option_ord (B f) (B g)"
    by (rule monotoneD [of _ _ _ f g])
  from mg have 2: "\<And>y. option_ord (C y f) (C y g)"
    by (rule monotoneD) (rule fg)
  show "option_ord (obind (B f) (\<lambda>y. C y f)) (obind (B g) (\<lambda>y. C y g))"
  proof (cases "B f")
    case None
    then show ?thesis by (simp add: obind_def flat_ord_def)
  next
    case (Some r)
    with 1 have "B g = Some r" by (auto simp: flat_ord_def)
    with Some 2 show ?thesis by (cases r) (auto simp: obind_def flat_ord_def)
  qed
qed

text \<open>
  \<^verbatim>\<open>checkpoint\<close> raises when the resource limit is reached or the memory ceiling is
  exceeded.
\<close>

definition checkpoint :: "lookahead \<Rightarrow> result" where
  "checkpoint s =
     (case m_limits s of
        [] \<Rightarrow> Inr s
      | Proceed # rest \<Rightarrow> Inr (s\<lparr>m_limits := rest\<rparr>)
      | Cancel # rest \<Rightarrow> Inl (Cancelled, s\<lparr>m_limits := rest\<rparr>)
      | Memory_exceeded # rest \<Rightarrow> Inl (Out_of_memory, s\<lparr>m_limits := rest\<rparr>))"

section \<open>Double lookahead\<close>

text \<open>
  Modelled from the spec: the per-literal switch of the double lookahead, which the
  epoch \<open>m_istamp_id\<close> enables anew, the overflow test and the mixing function of
  \<^verbatim>\<open>select_literal\<close> are declared in the absent header. The canonical mix is
  \<open>a \<cdot> b + a + b\<close>.
\<close>

definition dl_enabled :: "lookahead \<Rightarrow> literal \<Rightarrow> bool" where
  "dl_enabled s l \<longleftrightarrow> m_double_lookahead s (index l) \<noteq> m_istamp_id s"

definition dl_disable :: "literal \<Rightarrow> lookahead \<Rightarrow> lookahead" where
  "dl_disable l s = s\<lparr>m_double_lookahead := (m_double_lookahead s)(index l := m_istamp_id s)\<rparr>"

definition dl_no_overflow :: "lookahead \<Rightarrow> nat \<Rightarrow> bool" where
  "dl_no_overflow s base \<longleftrightarrow>
     base + 2 * length (m_lookahead s) * (m_dl_max_iterations (m_config s) + 1) < c_fixed_truth"

definition mix_diff :: "real \<Rightarrow> real \<Rightarrow> real" where
  "mix_diff l r = l * r + l + r"

definition inc_istamp :: "lookahead \<Rightarrow> lookahead" where
  "inc_istamp s =
     (let s1 = s\<lparr>m_istamp_id := m_istamp_id s + 1\<rparr> in
      if m_istamp_id s1 = 0
      then s1\<lparr>m_istamp_id := m_istamp_id s1 + 1, m_double_lookahead := (\<lambda>_. 0)\<rparr>
      else s1)"

text \<open>
  One pass of \<^verbatim>\<open>double_look\<close> over the lookahead table at the levels above \<open>base\<close>;
  the answer says whether some literal was fixed.
\<close>

fun double_look_pass ::
  "nat \<Rightarrow> nat \<Rightarrow> (literal \<times> nat) list \<Rightarrow> bool \<Rightarrow> lookahead \<Rightarrow> (bool \<times> lookahead) res" where
  "double_look_pass dl_truth base [] change s = oret (change, s)"
| "double_look_pass dl_truth base ((lit, offset) # rest) change s =
     (if inconsistent s then oret (change, s)
      else if is_fixed_at s lit dl_truth then double_look_pass dl_truth base rest change s
      else
        obind (of_option (push_lookahead2 lit (base + offset) s)) (\<lambda>(unsat, s1).
          if unsat then
            obind (of_result (reset_wnb s1)) (\<lambda>s2.
            obind (of_option (propagate (assign (neg lit) s2))) (\<lambda>s3.
              double_look_pass dl_truth base rest True (init_wnb s3)))
          else double_look_pass dl_truth base rest change s1))"

text \<open>
  The loop of \<^verbatim>\<open>double_look\<close>; \<open>n\<close> counts the iterations that
  \<^verbatim>\<open>m_dl_max_iterations\<close> still allows.
\<close>

fun double_look_loop :: "nat \<Rightarrow> nat \<Rightarrow> nat \<Rightarrow> bool \<Rightarrow> lookahead \<Rightarrow> lookahead res" where
  "double_look_loop dl_truth 0 base change s = oret s"
| "double_look_loop dl_truth (Suc n) base change s =
     (if change \<and> \<not> inconsistent s then
        let base' = base + 2 * length (m_lookahead s) in
        obind (double_look_pass dl_truth base' (m_lookahead s) False s) (\<lambda>(change', s1).
          double_look_loop dl_truth n base' change' s1)
      else oret s)"

definition double_look :: "literal \<Rightarrow> nat \<Rightarrow> lookahead \<Rightarrow> (nat \<times> lookahead) res" where
  "double_look l base s =
     (let dl_truth = base + 2 * length (m_lookahead s) * (m_dl_max_iterations (m_config s) + 1);
          s1 = init_wnb (s\<lparr>m_level := dl_truth\<rparr>)
      in obind (of_option (propagate (assign l s1))) (\<lambda>s2.
         obind (double_look_loop dl_truth (m_dl_max_iterations (m_config s2)) base True s2) (\<lambda>s3.
         case reset_wnb s3 of
           Inl (e, s4) \<Rightarrow> Some (Inl (e, s4\<lparr>m_level := m_level s\<rparr>))
         | Inr s4 \<Rightarrow> oret (dl_truth, s4\<lparr>m_level := m_level s\<rparr>))))"

definition do_double :: "literal \<Rightarrow> nat \<Rightarrow> lookahead \<Rightarrow> (nat \<times> lookahead) res" where
  "do_double l base s =
     (if \<not> inconsistent s \<and> 1 < scope_lvl s \<and> dl_enabled s l then
        if m_delta_trigger s < get_wnb s l then
          if dl_no_overflow s base then
            obind (double_look l base s) (\<lambda>(base', s1).
              oret (base', dl_disable l (s1\<lparr>m_delta_trigger := get_wnb s1 l\<rparr>)))
          else oret (base, s)
        else oret (base, s\<lparr>m_delta_trigger := m_delta_trigger s * m_delta_rho (m_config s)\<rparr>)
      else oret (base, s))"

section \<open>Computing the weighted new binaries\<close>

text \<open>
  One pass of \<^verbatim>\<open>compute_wnb\<close> over the lookahead table: \<open>base\<close> is the variable that
  \<^verbatim>\<open>do_double\<close> may raise, \<open>change\<close> the flag of the enclosing loop.
\<close>

fun compute_wnb_pass ::
  "bool \<Rightarrow> (literal \<times> nat) list \<Rightarrow> nat \<Rightarrow> bool \<Rightarrow> lookahead \<Rightarrow> (nat \<times> bool \<times> lookahead) res"
  where
  "compute_wnb_pass first [] base change s = oret (base, change, s)"
| "compute_wnb_pass first ((lit, offset) # rest) base change s =
     (if inconsistent s then oret (base, change, s)
      else
        obind (of_result (checkpoint s)) (\<lambda>s0.
          if is_fixed_at s0 lit c_fixed_truth then compute_wnb_pass first rest base change s0
          else
            let level = base + offset in
            if level \<le> m_stamp s0 (var lit) then compute_wnb_pass first rest base change s0
            else
              obind (of_option (push_lookahead1 lit level (reset_wnb_lit lit s0))) (\<lambda>s1.
              obind (if \<not> first then do_double lit base s1 else oret (base, s1)) (\<lambda>(base', s2).
                let unsat = inconsistent s2;
                    s3 = pop_lookahead1 lit s2
                in if unsat then
                     obind (of_result (reset_wnb s3)) (\<lambda>s4.
                     obind (of_option (propagate (assign (neg lit) s4))) (\<lambda>s5.
                       compute_wnb_pass first rest base' True (init_wnb s5)))
                   else
                     obind (update_wnb lit level s3) (\<lambda>s4.
                       compute_wnb_pass first rest base' change s4)))))"

partial_function (option) compute_wnb_loop ::
  "nat \<Rightarrow> bool \<Rightarrow> bool \<Rightarrow> lookahead \<Rightarrow> lookahead res" where
  "compute_wnb_loop base change first s =
     (if change \<and> \<not> inconsistent s then
        obind (compute_wnb_pass first (m_lookahead s) base False s) (\<lambda>(base', change', s1).
          if c_fixed_truth - 2 * length (m_lookahead s1) < base' then oret s1
          else
            obind (of_result (reset_wnb s1)) (\<lambda>s2.
              if first \<and> \<not> change'
              then compute_wnb_loop base' True False (init_wnb s2)
              else compute_wnb_loop base' change' first (init_wnb s2)))
      else oret s)"

definition compute_wnb :: "lookahead \<Rightarrow> lookahead res" where
  "compute_wnb s =
     obind (compute_wnb_loop 2 True True (init_wnb s)) (\<lambda>s1. of_result (reset_wnb s1))"

section \<open>Selecting the decision literal\<close>

definition rand :: "nat \<Rightarrow> lookahead \<Rightarrow> nat \<times> lookahead" where
  "rand n s = (case m_rand s of [] \<Rightarrow> (0, s) | r # rs \<Rightarrow> (r mod n, s\<lparr>m_rand := rs\<rparr>))"

fun select_literal_loop ::
  "(literal \<times> nat) list \<Rightarrow> literal \<Rightarrow> real \<Rightarrow> nat \<Rightarrow> lookahead \<Rightarrow> literal \<times> lookahead" where
  "select_literal_loop [] l h count s = (l, s)"
| "select_literal_loop ((lit, offset) # rest) l h count s =
     (if sign lit \<or> \<not> is_undef s lit then select_literal_loop rest l h count s
      else
        let diff1 = get_wnb s lit;
            diff2 = get_wnb s (neg lit);
            mixd = mix_diff diff1 diff2;
            count1 = (if mixd = h then count + 1 else count)
        in if h < mixd
           then select_literal_loop rest (if diff1 < diff2 then lit else neg lit) mixd 1 s
           else if mixd = h then
             let (r, s1) = rand count1 s in
             if r = 0
             then select_literal_loop rest (if diff1 < diff2 then lit else neg lit) mixd count1 s1
             else select_literal_loop rest l h count1 s1
           else select_literal_loop rest l h count1 s)"

definition select_literal :: "lookahead \<Rightarrow> literal \<times> lookahead" where
  "select_literal s = select_literal_loop (m_lookahead s) null_literal 0 1 s"

section \<open>Pre-selection\<close>

definition active_prefix :: "lookahead \<Rightarrow> nat \<Rightarrow> bool" where
  "active_prefix s x =
     (let lvl = length (m_trail_lim s);
          p = fst (m_vprefix s x);
          l = snd (m_vprefix s x)
      in if lvl < l then False
         else if l = lvl \<or> 31 \<le> l then m_prefix s = ucast p
         else
           let mask = (push_bit (min l 31) 1 - 1 :: 32 word)
           in m_prefix s AND ucast mask = ucast (p AND mask))"

definition init_candidates :: "nat \<Rightarrow> bool \<Rightarrow> lookahead \<Rightarrow> real \<times> lookahead" where
  "init_candidates level newbies s =
     fold (\<lambda>x (sum, t).
             if m_select_lookahead_vars t \<noteq> [] then
               if x \<in> set (m_select_lookahead_vars t)
               then (sum + m_rating t x, t\<lparr>m_candidates := m_candidates t @ [(x, m_rating t x)]\<rparr>)
               else (sum, t)
             else if newbies \<or> active_prefix t x
             then (sum + m_rating t x, t\<lparr>m_candidates := m_candidates t @ [(x, m_rating t x)]\<rparr>)
             else (sum, t))
       (m_freevars s) (0, s\<lparr>m_candidates := []\<rparr>)"

definition is_sat :: "lookahead \<Rightarrow> bool" where
  "is_sat s \<longleftrightarrow>
     \<not> list_ex (\<lambda>x. list_ex (\<lambda>l. \<not> is_true s l) (m_binary s (index (Lit x False)))
                    \<or> list_ex (\<lambda>l. \<not> is_true s l) (m_binary s (index (Lit x True))))
         (m_freevars s)
     \<and> \<not> list_ex (\<lambda>off. \<not> list_ex (is_true s) (m_cls_allocator s off)) (m_clauses s)"

definition is_unsat :: "lookahead \<Rightarrow> bool" where
  "is_unsat s \<longleftrightarrow> list_ex (\<lambda>off. list_all (is_false s) (m_cls_allocator s off)) (m_clauses s)"

definition ensure_H :: "nat \<Rightarrow> lookahead \<Rightarrow> lookahead" where
  "ensure_H level s = s\<lparr>m_H := m_H s @ replicate (Suc level - length (m_H s)) (\<lambda>_. 0)\<rparr>"

text \<open>
  \<^verbatim>\<open>l_score\<close>: \<open>hi\<close> names the array \<open>h\<close> by its position in \<open>m_H\<close>. A watch of the
  extension adds nothing to the score.
\<close>

definition score_binary :: "nat \<Rightarrow> literal \<Rightarrow> literal \<Rightarrow> real \<times> lookahead \<Rightarrow> real \<times> lookahead"
  where
  "score_binary hi l w = (\<lambda>(sum, t).
     let t1 = (if 2 * m_num_vars t \<le> index w
               then t\<lparr>m_verbose := m_verbose t @ [Score_index l w (2 * m_num_vars t)]\<rparr>
               else t)
     in (if is_undef t1 w then sum + (m_H t1 ! hi) (index w) else sum, t1))"

definition score_watch :: "nat \<Rightarrow> literal \<Rightarrow> lookahead \<Rightarrow> watched \<Rightarrow> real \<Rightarrow> real" where
  "score_watch hi l s w tsum =
     (let h = m_H s ! hi in
      case w of
        BINARY l1 learned \<Rightarrow> tsum
      | TERNARY l1 l2 \<Rightarrow> tsum + h (index l1) * h (index l2)
      | CLAUSE blocked off \<Rightarrow>
          let c = m_cls_allocator s off in
          if c ! 0 = neg l then tsum + h (index (c ! 1)) * h (index (c ! 2))
          else tsum + h (index (c ! 0)) * h (index (c ! 2))
      | EXT_CONSTRAINT idx \<Rightarrow> tsum)"

definition l_score ::
  "literal \<Rightarrow> nat \<Rightarrow> real \<Rightarrow> real \<Rightarrow> real \<Rightarrow> lookahead \<Rightarrow> real \<times> lookahead" where
  "l_score l hi factor sqfactor afactor s =
     (let (sum, s1) = fold (score_binary hi l) (m_binary s (index l)) (0, s);
          tsum = fold (score_watch hi l s1) (m_watches s1 (index l)) 0;
          sum' = 0.1 + afactor * sum + sqfactor * tsum
      in (min (m_max_score (m_config s1)) sum', s1))"

definition h_sum :: "nat \<Rightarrow> lookahead \<Rightarrow> real" where
  "h_sum hi s =
     fold (\<lambda>x sum. sum + ((m_H s ! hi) (index (Lit x False)) + (m_H s ! hi) (index (neg (Lit x False)))))
       (m_freevars s) 0"

text \<open>The denominator of the normalisation factor: a sum of 0 is replaced by 0.0001.\<close>

definition h_denominator :: "nat \<Rightarrow> lookahead \<Rightarrow> real" where
  "h_denominator hi s = (let sum = h_sum hi s in if sum = 0 then 0.0001 else sum)"

definition h_score_var ::
  "nat \<Rightarrow> nat \<Rightarrow> real \<Rightarrow> real \<Rightarrow> real \<Rightarrow> nat \<Rightarrow> lookahead \<Rightarrow> lookahead" where
  "h_score_var hi hpi factor sqfactor afactor x s =
     (let l = Lit x False;
          (pos, s1) = l_score l hi factor sqfactor afactor s;
          (ng, s2) = l_score (neg l) hi factor sqfactor afactor s1
      in s2\<lparr>m_H := (m_H s2)[hpi := ((m_H s2 ! hpi)(index l := pos, index (neg l) := ng))],
            m_rating := (m_rating s2)(var l := pos * ng)\<rparr>)"

definition h_scores :: "nat \<Rightarrow> nat \<Rightarrow> lookahead \<Rightarrow> lookahead" where
  "h_scores hi hpi s =
     (let sum = h_denominator hi s;
          factor = real (2 * length (m_freevars s)) / sum;
          sqfactor = factor * factor;
          afactor = factor * m_alpha (m_config s)
      in fold (h_score_var hi hpi factor sqfactor afactor) (m_freevars s) s)"

definition init_pre_selection :: "nat \<Rightarrow> lookahead \<Rightarrow> lookahead" where
  "init_pre_selection level s =
     (let max_level = m_max_hlevel (m_config s) in
      if level \<le> 1 then
        let s1 = h_scores 0 1 (ensure_H 2 s);
            s2 = h_scores 2 0 (h_scores 1 2 s1);
            s3 = h_scores 2 0 (h_scores 1 2 s2)
        in s3\<lparr>m_heur := 1\<rparr>
      else if level < max_level then
        (h_scores (level - 1) level (ensure_H level s))\<lparr>m_heur := level\<rparr>
      else
        (h_scores (max_level - 1) max_level (ensure_H max_level s))\<lparr>m_heur := max_level\<rparr>)"

text \<open>
  The two loops of \<^verbatim>\<open>select\<close> that drop the candidates rated below the mean while
  there are at least \<open>max2 = 2 * max_num_cand\<close> of them.
\<close>

function trim_pass ::
  "nat \<Rightarrow> nat \<Rightarrow> real \<Rightarrow> (nat \<times> real) list \<Rightarrow> real \<Rightarrow> bool \<Rightarrow> (nat \<times> real) list \<times> real \<times> bool"
  where
  "trim_pass max2 i mean cands sm progress =
     (if i < length cands \<and> max2 \<le> length cands then
        if mean \<le> snd (cands ! i)
        then trim_pass max2 (Suc i) mean cands (sm + snd (cands ! i)) progress
        else trim_pass max2 i mean (butlast (cands[i := last cands])) sm True
      else (cands, sm, progress))"
  by pat_completeness auto
termination
  by (relation "measure (\<lambda>(max2, i, mean, cands, sm, progress). length cands - i)") auto

lemma trim_pass_length:
  "trim_pass max2 i mean cands sm progress = (cands', sm', progress') \<Longrightarrow>
   length cands' \<le> length cands \<and> (progress' \<and> \<not> progress \<longrightarrow> length cands' < length cands)"
proof (induction max2 i mean cands sm progress rule: trim_pass.induct)
  case (1 max2 i mean cands sm progress)
  show ?case
  proof (cases "i < length cands \<and> max2 \<le> length cands")
    case False
    with "1.prems" show ?thesis by (simp add: trim_pass.simps [of max2 i mean cands])
  next
    case True
    show ?thesis
    proof (cases "mean \<le> snd (cands ! i)")
      case keep: True
      with True "1.prems"
      have "trim_pass max2 (Suc i) mean cands (sm + snd (cands ! i)) progress
              = (cands', sm', progress')"
        by (simp add: trim_pass.simps [of max2 i mean cands])
      from "1.IH"(1) [OF True keep this] show ?thesis .
    next
      case drop: False
      with True "1.prems"
      have "trim_pass max2 i mean (butlast (cands[i := last cands])) sm True
              = (cands', sm', progress')"
        by (simp add: trim_pass.simps [of max2 i mean cands])
      from "1.IH"(2) [OF True drop this] True show ?thesis by auto
    qed
  qed
qed

function trim_loop :: "nat \<Rightarrow> (nat \<times> real) list \<Rightarrow> real \<Rightarrow> bool \<Rightarrow> (nat \<times> real) list \<times> real"
  where
  "trim_loop max2 cands sm progress =
     (if progress \<and> max2 \<le> length cands then
        let mean = sm / (real (length cands) + 0.0001);
            r = trim_pass max2 0 mean cands 0 False
        in trim_loop max2 (fst r) (fst (snd r)) (snd (snd r))
      else (cands, sm))"
  by pat_completeness auto
termination
proof (relation "measure (\<lambda>(max2, cands, sm, progress). if progress then Suc (length cands) else 0)",
    goal_cases)
  case 1
  show ?case by simp
next
  case (2 max2 cands sm progress mean r)
  obtain cands' sm' progress' where r: "r = (cands', sm', progress')"
    by (cases r) auto
  with 2 have "trim_pass max2 0 mean cands 0 False = (cands', sm', progress')"
    by simp
  from trim_pass_length [OF this] r 2 show ?case by auto
qed

text \<open>\<^verbatim>\<open>sift_up\<close> on the heap of candidates, keyed by rating.\<close>

function sift_up_loop ::
  "nat \<times> real \<Rightarrow> nat \<Rightarrow> nat \<Rightarrow> (nat \<times> real) list \<Rightarrow> nat \<times> (nat \<times> real) list" where
  "sift_up_loop c i k cands =
     (if k < length cands then
        let k' = (if k + 1 < length cands \<and> snd (cands ! k) < snd (cands ! (k + 1))
                  then k + 1 else k)
        in if snd c \<le> snd (cands ! k') then (i, cands)
           else sift_up_loop c k' (2 * k' + 1) (cands[i := cands ! k'])
      else (i, cands))"
  by pat_completeness auto
termination
  by (relation "measure (\<lambda>(c, i, k, cands). length cands - k)") auto

definition sift_up :: "nat \<Rightarrow> (nat \<times> real) list \<Rightarrow> (nat \<times> real) list" where
  "sift_up j cands =
     (let c = cands ! j;
          (i, cands') = sift_up_loop c j (2 * j + 1) cands
      in if j < i then cands'[i := c] else cands')"

text \<open>
  The second loop of the heap selection replaces the root by the last candidate until
  exactly \<open>n\<close> candidates are left.
\<close>

partial_function (option) heap_cut :: "nat \<Rightarrow> (nat \<times> real) list \<Rightarrow> (nat \<times> real) list option"
  where
  "heap_cut n cands =
     (let cands1 = butlast (cands[0 := last cands]) in
      if length cands1 = n then Some cands1 else heap_cut n (sift_up 0 cands1))"

text \<open>
  The first loop of \<^verbatim>\<open>select\<close>: without candidates and without a satisfying
  assignment it tries again with \<open>newbies\<close> set, and again.
\<close>

partial_function (option) select_candidates ::
  "nat \<Rightarrow> bool \<Rightarrow> lookahead \<Rightarrow> (real option \<times> lookahead) option" where
  "select_candidates level newbies s =
     (let (sum, s1) = init_candidates level newbies s in
      if m_candidates s1 \<noteq> [] then Some (Some sum, s1)
      else if is_sat s1 then Some (None, s1)
      else select_candidates level True s1)"

definition select :: "nat \<Rightarrow> lookahead \<Rightarrow> (bool \<times> lookahead) option" where
  "select level s =
     (let s1 = init_pre_selection level s;
          level_cand = max (m_level_cand (m_config s1)) (length (m_freevars s1) div 50);
          max_num_cand = max (m_min_cutoff (m_config s1))
                           (if level = 0 then length (m_freevars s1) else level_cand div level)
      in case select_candidates level False s1 of
           None \<Rightarrow> None
         | Some (None, s2) \<Rightarrow> Some (False, s2)
         | Some (Some sm, s2) \<Rightarrow>
             let (cands, sm') = trim_loop (max_num_cand * 2) (m_candidates s2) sm True in
             if max_num_cand < length cands then
               let heap = fold sift_up (rev [0..<length cands div 2]) cands in
               case heap_cut max_num_cand heap of
                 None \<Rightarrow> None
               | Some cands' \<Rightarrow> Some (True, s2\<lparr>m_candidates := cands'\<rparr>)
             else Some (True, s2\<lparr>m_candidates := cands\<rparr>))"

section \<open>Implication graph and strongly connected components\<close>

text \<open>
  Modelled from the spec: the accessors of the DFS data (rank, parent, min, link, height,
  vcomp and the arcs of a literal, which are handed out in the order they were added) are
  declared in the absent header, and so are the rating of a literal, which is the rating
  of its variable, and the two writers of the lookahead table.
\<close>

definition upd_dfs :: "literal \<Rightarrow> (dfs_info \<Rightarrow> dfs_info) \<Rightarrow> lookahead \<Rightarrow> lookahead" where
  "upd_dfs l f s = s\<lparr>m_dfs := (m_dfs s)(index l := f (m_dfs s (index l)))\<rparr>"

definition get_rank :: "lookahead \<Rightarrow> literal \<Rightarrow> nat" where
  "get_rank s l = dfs_rank (m_dfs s (index l))"

definition set_rank :: "literal \<Rightarrow> nat \<Rightarrow> lookahead \<Rightarrow> lookahead" where
  "set_rank l r = upd_dfs l (\<lambda>d. d\<lparr>dfs_rank := r\<rparr>)"

definition get_height :: "lookahead \<Rightarrow> literal \<Rightarrow> nat" where
  "get_height s l = dfs_height (m_dfs s (index l))"

definition set_height :: "literal \<Rightarrow> nat \<Rightarrow> lookahead \<Rightarrow> lookahead" where
  "set_height l h = upd_dfs l (\<lambda>d. d\<lparr>dfs_height := h\<rparr>)"

definition set_parent :: "literal \<Rightarrow> literal \<Rightarrow> lookahead \<Rightarrow> lookahead" where
  "set_parent l p = upd_dfs l (\<lambda>d. d\<lparr>dfs_parent := p\<rparr>)"

definition get_link :: "lookahead \<Rightarrow> literal \<Rightarrow> literal" where
  "get_link s l = dfs_link (m_dfs s (index l))"

definition set_link :: "literal \<Rightarrow> literal \<Rightarrow> lookahead \<Rightarrow> lookahead" where
  "set_link l p = upd_dfs l (\<lambda>d. d\<lparr>dfs_link := p\<rparr>)"

definition get_min :: "lookahead \<Rightarrow> literal \<Rightarrow> literal" where
  "get_min s l = dfs_min (m_dfs s (index l))"

definition set_min :: "literal \<Rightarrow> literal \<Rightarrow> lookahead \<Rightarrow> lookahead" where
  "set_min l p = upd_dfs l (\<lambda>d. d\<lparr>dfs_min := p\<rparr>)"

definition get_vcomp :: "lookahead \<Rightarrow> literal \<Rightarrow> literal" where
  "get_vcomp s l = dfs_vcomp (m_dfs s (index l))"

definition set_vcomp :: "literal \<Rightarrow> literal \<Rightarrow> lookahead \<Rightarrow> lookahead" where
  "set_vcomp l p = upd_dfs l (\<lambda>d. d\<lparr>dfs_vcomp := p\<rparr>)"

definition add_arc :: "literal \<Rightarrow> literal \<Rightarrow> lookahead \<Rightarrow> lookahead" where
  "add_arc u v = upd_dfs u (\<lambda>d. d\<lparr>dfs_next := dfs_next d @ [v]\<rparr>)"

definition has_arc :: "lookahead \<Rightarrow> literal \<Rightarrow> bool" where
  "has_arc s v \<longleftrightarrow> dfs_nextp (m_dfs s (index v)) < length (dfs_next (m_dfs s (index v)))"

definition pop_arc :: "literal \<Rightarrow> lookahead \<Rightarrow> literal \<times> lookahead" where
  "pop_arc u s =
     (dfs_next (m_dfs s (index u)) ! dfs_nextp (m_dfs s (index u)),
      upd_dfs u (\<lambda>d. d\<lparr>dfs_nextp := dfs_nextp d + 1\<rparr>) s)"

definition get_rating :: "lookahead \<Rightarrow> literal \<Rightarrow> real" where
  "get_rating s l = m_rating s (var l)"

definition set_lookahead :: "literal \<Rightarrow> lookahead \<Rightarrow> lookahead" where
  "set_lookahead l s = s\<lparr>m_lookahead := m_lookahead s @ [(l, 0)]\<rparr>"

definition set_offset :: "nat \<Rightarrow> nat \<Rightarrow> lookahead \<Rightarrow> lookahead" where
  "set_offset idx offset s =
     s\<lparr>m_lookahead := (m_lookahead s)[idx := (fst (m_lookahead s ! idx), offset)]\<rparr>"

definition UINT_MAX :: nat where
  "UINT_MAX = 4294967295"

definition init_dfs_info :: "literal \<Rightarrow> lookahead \<Rightarrow> lookahead" where
  "init_dfs_info l s = set_bstamp l (s\<lparr>m_dfs := (m_dfs s)(index l := dfs_reset)\<rparr>)"

text \<open>Arcs are added against the implications: for \<open>l \<Rightarrow> u\<close> the arc goes from \<open>u\<close> to \<open>l\<close>.\<close>

definition init_arcs :: "literal \<Rightarrow> lookahead \<Rightarrow> lookahead" where
  "init_arcs l s =
     fold (\<lambda>u t. if index l < index u \<and> is_stamped t u
                  then add_arc u l (add_arc (neg l) (neg u) t)
                  else t)
       (m_binary s (index l)) s"

definition init_scc :: "lookahead \<Rightarrow> lookahead" where
  "init_scc s =
     (let s1 = inc_bstamp s;
          s2 = fold (\<lambda>c t. init_dfs_info (neg (Lit (fst c) False)) (init_dfs_info (Lit (fst c) False) t))
                 (m_candidates s1) s1;
          s3 = fold (\<lambda>c t. init_arcs (neg (Lit (fst c) False)) (init_arcs (Lit (fst c) False) t))
                 (m_candidates s2) s2
      in s3\<lparr>m_rank := 0, m_active := null_literal, m_settled := null_literal\<rparr>)"

definition activate_scc :: "literal \<Rightarrow> lookahead \<Rightarrow> lookahead" where
  "activate_scc l s =
     (let s1 = s\<lparr>m_rank := m_rank s + 1\<rparr>;
          s2 = set_rank l (m_rank s1) s1;
          s3 = set_link l (m_active s2) s2;
          s4 = set_min l l s3
      in s4\<lparr>m_active := l\<rparr>)"

text \<open>
  The loop of \<^verbatim>\<open>found_scc\<close> walks the active list from \<open>t\<close> down to the root \<open>v\<close>
  of the component.
\<close>

partial_function (option) found_scc_loop ::
  "literal \<Rightarrow> literal \<Rightarrow> literal \<Rightarrow> real \<Rightarrow> lookahead \<Rightarrow> (literal \<times> lookahead) option" where
  "found_scc_loop v t best best_rating s =
     (if t \<noteq> v then
        if t = neg v then Some (best, set_conflict s)
        else
          let s1 = set_parent t v (set_rank t UINT_MAX s);
              t_rating = get_rating s1 t
          in if best_rating < t_rating
             then found_scc_loop v (get_link s1 t) t t_rating s1
             else found_scc_loop v (get_link s1 t) best best_rating s1
      else Some (best, s))"

definition found_scc :: "literal \<Rightarrow> lookahead \<Rightarrow> lookahead option" where
  "found_scc v s =
     (let t = m_active s;
          s1 = s\<lparr>m_active := get_link s v\<rparr>;
          s2 = set_rank v UINT_MAX s1;
          s3 = (set_link v (m_settled s2) s2)\<lparr>m_settled := t\<rparr>
      in case found_scc_loop v t v (get_rating s3 v) s3 of
           None \<Rightarrow> None
         | Some (best, s4) \<Rightarrow>
             let s5 = set_vcomp v best (set_parent v v s4)
             in if get_rank s5 (neg v) = UINT_MAX
                then Some (set_vcomp v (neg (get_vcomp s5 (get_parent s5 (neg v)))) s5)
                else Some s5)"

partial_function (option) get_scc_loop :: "literal \<Rightarrow> lookahead \<Rightarrow> lookahead option" where
  "get_scc_loop v s =
     Option.bind
       (let ll = get_min s v in
        if has_arc s v then
          let (u, s1) = pop_arc v s;
              r = get_rank s1 u
          in if 0 < r then
               Some (v, if r < get_rank s1 ll then set_min v u s1 else s1)
             else Some (u, activate_scc u (set_parent u v s1))
        else
          let u = get_parent s v in
          if v = ll then Option.bind (found_scc v s) (\<lambda>s1. Some (u, s1))
          else if get_rank s ll < get_rank s (get_min s u) then Some (u, set_min u ll s)
          else Some (u, s))
       (\<lambda>(v', s'). if v' \<noteq> null_literal \<and> \<not> inconsistent s' then get_scc_loop v' s'
                    else Some s')"

definition get_scc_lit :: "literal \<Rightarrow> lookahead \<Rightarrow> lookahead option" where
  "get_scc_lit v s = get_scc_loop v (activate_scc v (set_parent v null_literal s))"

fun get_scc_candidates :: "(nat \<times> real) list \<Rightarrow> lookahead \<Rightarrow> lookahead option" where
  "get_scc_candidates [] s = Some s"
| "get_scc_candidates (c # cs) s =
     (if inconsistent s then Some s
      else
        let lit = Lit (fst c) False in
        Option.bind (if get_rank s lit = 0 then get_scc_lit lit s else Some s) (\<lambda>s1.
        Option.bind (if get_rank s1 (neg lit) = 0 then get_scc_lit (neg lit) s1 else Some s1)
          (get_scc_candidates cs)))"

definition get_scc :: "lookahead \<Rightarrow> lookahead option" where
  "get_scc s = (let s1 = init_scc s in get_scc_candidates (m_candidates s1) s1)"

section \<open>Lookahead forest and table\<close>

definition get_child :: "lookahead \<Rightarrow> literal \<Rightarrow> literal" where
  "get_child s u = (if u = null_literal then m_root_child s else dfs_min (m_dfs s (index u)))"

definition set_child :: "literal \<Rightarrow> literal \<Rightarrow> lookahead \<Rightarrow> lookahead" where
  "set_child v u s =
     (if v = null_literal then s\<lparr>m_root_child := u\<rparr> else upd_dfs v (\<lambda>d. d\<lparr>dfs_min := u\<rparr>) s)"

text \<open>
  The inner loop of \<^verbatim>\<open>find_heights\<close> over the arcs of \<open>\<not>u\<close>: \<open>h\<close> is the height so far
  and \<open>w\<close> the class that gives it.
\<close>

definition height_step :: "lookahead \<Rightarrow> literal \<Rightarrow> literal \<Rightarrow> nat \<times> literal \<Rightarrow> nat \<times> literal" where
  "height_step s p nx = (\<lambda>(h, w).
     let v = neg nx;
         pv = get_parent s v
     in if pv = p then (h, w)
        else
          let hh = get_height s pv in
          if h \<le> hh then (hh + 1, pv) else (h, w))"

partial_function (option) find_heights_loop ::
  "literal \<Rightarrow> literal \<Rightarrow> nat \<Rightarrow> literal \<Rightarrow> lookahead \<Rightarrow> lookahead option" where
  "find_heights_loop u pp h w s =
     (if u \<noteq> null_literal then
        let uu = get_link s u;
            p = get_parent s u;
            (h1, w1, pp1) = (if p \<noteq> pp then (0, null_literal, p) else (h, w, pp));
            (h2, w2) = fold (height_step s p) (dfs_next (m_dfs s (index (neg u)))) (h1, w1)
        in if p = u then
             let v = get_child s w2;
                 s1 = set_height u h2 s;
                 s2 = set_child u null_literal s1;
                 s3 = set_link u v s2;
                 s4 = set_child w2 u s3
             in find_heights_loop uu pp1 h2 w2 s4
           else find_heights_loop uu pp1 h2 w2 s
      else Some s)"

definition find_heights :: "lookahead \<Rightarrow> lookahead option" where
  "find_heights s =
     (let s1 = s\<lparr>m_root_child := null_literal\<rparr>
      in find_heights_loop (m_settled s1) null_literal 0 null_literal s1)"

text \<open>
  The inner loop of \<^verbatim>\<open>construct_lookahead_table\<close>, which gives the offsets on the way
  up the forest.
\<close>

partial_function (option) table_up ::
  "literal \<Rightarrow> literal \<Rightarrow> nat \<Rightarrow> lookahead \<Rightarrow> (literal \<times> literal \<times> nat \<times> lookahead) option" where
  "table_up u v offset s =
     (let s1 = set_offset (get_rank s u) offset s;
          offset1 = offset + 2;
          s2 = set_parent u (if v = null_literal then v else get_vcomp s1 v) s1;
          u1 = get_link s2 u
      in if u1 = null_literal \<and> v \<noteq> null_literal
         then table_up v (get_parent s2 v) offset1 s2
         else Some (u1, v, offset1, s2))"

partial_function (option) table_loop ::
  "literal \<Rightarrow> literal \<Rightarrow> nat \<Rightarrow> lookahead \<Rightarrow> lookahead option" where
  "table_loop u v offset s =
     (if u \<noteq> null_literal then
        let s1 = set_rank u (length (m_lookahead s)) s;
            s2 = set_lookahead (get_vcomp s1 u) s1
        in if null_literal \<noteq> get_child s2 u
           then table_loop (get_child s2 u) u offset (set_parent u v s2)
           else Option.bind (table_up u v offset s2) (\<lambda>(u1, v1, offset1, s3).
                  table_loop u1 v1 offset1 s3)
      else Some s)"

definition construct_lookahead_table :: "lookahead \<Rightarrow> lookahead option" where
  "construct_lookahead_table s = table_loop (get_child s null_literal) null_literal 0 s"

definition pre_select :: "lookahead \<Rightarrow> lookahead option" where
  "pre_select s =
     Option.bind (select (scope_lvl s) (s\<lparr>m_lookahead := []\<rparr>)) (\<lambda>(found, s1).
       if found then
         Option.bind (get_scc s1) (\<lambda>s2.
           if inconsistent s2 then Some s2
           else Option.bind (find_heights s2) construct_lookahead_table)
       else Some s1)"

section \<open>The search\<close>

partial_function (option) choose_loop :: "lookahead \<Rightarrow> (literal \<times> lookahead) res" where
  "choose_loop s =
     obind (of_option (pre_select s)) (\<lambda>s1.
       if m_lookahead s1 = [] then oret (null_literal, s1)
       else
         obind (compute_wnb s1) (\<lambda>s2.
           if inconsistent s2 then oret (null_literal, s2)
           else
             let (l, s3) = select_literal s2 in
             if l = null_literal then choose_loop s3 else oret (l, s3)))"

text \<open>\<^verbatim>\<open>choose\<close>, named \<open>choose_lit\<close> here.\<close>

definition choose_lit :: "lookahead \<Rightarrow> (literal \<times> lookahead) res" where
  "choose_lit s = choose_loop s"

text \<open>
  \<^verbatim>\<open>backtrack\<close>: \<open>trail\<close> is the vector of decisions of \<^verbatim>\<open>search\<close>; the answer is
  \<open>False\<close> when it is used up with the conflict still there.
\<close>

function backtrack :: "literal list \<Rightarrow> lookahead \<Rightarrow> (bool \<times> literal list \<times> lookahead) res" where
  "backtrack trail s =
     (if inconsistent s then
        if trail = [] then oret (False, trail, s)
        else
          obind (of_result (pop s)) (\<lambda>s1.
          obind (of_option (propagate (assign (neg (last trail)) (flip_prefix s1)))) (\<lambda>s2.
            backtrack (butlast trail) s2))
      else oret (True, trail, s))"
  by pat_completeness auto
termination
  by (relation "measure (\<lambda>(trail, s). length trail)") auto

partial_function (option) search_loop ::
  "literal list \<Rightarrow> lookahead \<Rightarrow> (lbool \<times> lookahead) res" where
  "search_loop trail s =
     obind (of_result (checkpoint (inc_istamp s))) (\<lambda>s1.
       if inconsistent s1 then
         obind (backtrack trail s1) (\<lambda>(ok, trail1, s2).
           if \<not> ok then oret (l_false, s2) else search_loop trail1 s2)
       else
         obind (choose_lit s1) (\<lambda>(l, s2).
           if inconsistent s2 then
             obind (backtrack trail s2) (\<lambda>(ok, trail1, s3).
               if \<not> ok then oret (l_false, s3) else search_loop trail1 s3)
           else if l = null_literal then oret (l_true, s2)
           else
             obind (of_option (push l c_fixed_truth s2)) (\<lambda>s3.
               search_loop (trail @ [l]) s3)))"

text \<open>
  \<^verbatim>\<open>search\<close> runs at level \<^verbatim>\<open>c_fixed_truth\<close>; the former level is put back when it
  returns and when an exception leaves it.
\<close>

definition search :: "lookahead \<Rightarrow> (lbool \<times> lookahead) res" where
  "search s =
     (case search_loop [] (s\<lparr>m_model := [], m_level := c_fixed_truth, m_search_mode := searching\<rparr>) of
        None \<Rightarrow> None
      | Some (Inl (e, s1)) \<Rightarrow> Some (Inl (e, s1\<lparr>m_level := m_level s\<rparr>))
      | Some (Inr (r, s1)) \<Rightarrow> Some (Inr (r, s1\<lparr>m_level := m_level s\<rparr>)))"

section \<open>A new solver object\<close>

text \<open>
  Modelled from the spec: the constructor is declared in the absent header. A new
  \<^verbatim>\<open>lookahead\<close> object has empty vectors, zeroed counters, no literal stamped and the
  level 2, above the stamp 0 of a variable without a value; all its structures are
  created by \<^verbatim>\<open>init\<close> from the clause database of the parent solver. The extension of
  \<open>no_extension\<close> keeps every watch and assigns nothing.
\<close>

definition no_extension :: "literal \<Rightarrow> nat \<Rightarrow> (literal \<Rightarrow> lbool) \<Rightarrow> ext_answer" where
  "no_extension l idx vals = (True, [], False)"

definition new_lookahead :: "solver \<Rightarrow> config \<Rightarrow> nat \<Rightarrow> lookahead" where
  "new_lookahead sol cfg n =
     \<lparr>m_s = sol, m_config = cfg, m_num_vars = n,
      m_binary = (\<lambda>_. []), m_binary_trail = [], m_binary_trail_lim = [],
      m_num_tc1 = 0, m_num_tc1_lim = [],
      m_cls_allocator = (\<lambda>_. []), m_clauses = [],
      m_retired_clauses = [], m_retired_clause_lim = [],
      m_retired_ternary = [], m_retired_ternary_lim = [],
      m_watches = (\<lambda>_. []), m_full_watches = (\<lambda>_. []),
      m_trail = [], m_trail_lim = [], m_qhead = 0, m_qhead_lim = [],
      m_level = 2, m_stamp = (\<lambda>_. 0), m_value = (\<lambda>_. False),
      m_inconsistent = False, m_search_mode = searching,
      m_bstamp = (\<lambda>_. 0), m_bstamp_id = 0,
      m_istamp_id = 0, m_double_lookahead = (\<lambda>_. 0), m_wnb = (\<lambda>_. 0),
      m_freevars = [], m_assumptions = [], m_drat_out = [],
      m_wstack = [], m_weighted_new_binaries = 0,
      m_H = [], m_heur = 0, m_rating = (\<lambda>_. 0), m_candidates = [],
      m_dfs = (\<lambda>_. dfs_reset), m_rank = 0,
      m_active = null_literal, m_settled = null_literal, m_root_child = null_literal,
      m_lookahead = [], m_delta_trigger = 0, m_select_lookahead_vars = [],
      m_prefix = 0, m_vprefix = (\<lambda>_. (0, 0)),
      m_ext = no_extension, m_limits = [], m_rand = [],
      m_verbose = [], m_model = []\<rparr>"

text \<open>
  The parent solver of a set of binary clauses: the clause \<open>a \<or> b\<close> is watched by
  \<open>\<not>a\<close> with the other literal \<open>b\<close>, and by \<open>\<not>b\<close> with \<open>a\<close>.
\<close>

definition watch_binary :: "literal \<times> literal \<Rightarrow> watched list list \<Rightarrow> watched list list" where
  "watch_binary c ws =
     (let (a, b) = c;
          ws1 = ws[index (neg a) := ws ! index (neg a) @ [BINARY b False]]
      in ws1[index (neg b) := ws1 ! index (neg b) @ [BINARY a False]])"

definition cnf_solver :: "nat \<Rightarrow> (literal \<times> literal) list \<Rightarrow> literal list list \<Rightarrow> solver" where
  "cnf_solver n binaries clauses =
     \<lparr>s_watches = fold watch_binary binaries (replicate (2 * n) []),
      s_clauses = map (\<lambda>c. (c, False)) clauses,
      s_learned = [], s_trail = [], s_init_trail_size = 0,
      s_eliminated = (\<lambda>_. False)\<rparr>"

definition example_config :: config where
  "example_config =
     \<lparr>m_tc1_limit = 10000000, m_drat = False, m_alpha = 3.5, m_max_score = 20,
      m_max_hlevel = 50, m_level_cand = 600, m_min_cutoff = 30, m_delta_rho = 0.9995,
      m_dl_max_iterations = 32, m_dl_success = 0.8\<rparr>"

text \<open>A new solver object for two variables and no clauses.\<close>

definition two_var_state :: lookahead where
  "two_var_state = new_lookahead (cnf_solver 2 [] []) example_config 2"


text \<open>The solver object for the single clause \<open>\<not>x\<^sub>0 \<or> x\<^sub>1 \<or> x\<^sub>2\<close>.\<close>

definition ternary_cnf :: lookahead where
  "ternary_cnf = new_lookahead (cnf_solver 3 [] [[Lit 0 True, Lit 1 False, Lit 2 False]])
     example_config 3"

text \<open>
  The solver object for \<open>\<not>x\<^sub>0 \<or> x\<^sub>1\<close>, \<open>\<not>x\<^sub>3 \<or> x\<^sub>4\<close>, \<open>\<not>x\<^sub>5 \<or> x\<^sub>6\<close>, \<open>\<not>x\<^sub>5 \<or> \<not>x\<^sub>6\<close>,
  \<open>\<not>x\<^sub>0 \<or> \<not>x\<^sub>1 \<or> x\<^sub>2\<close> and \<open>\<not>x\<^sub>3 \<or> \<not>x\<^sub>4 \<or> x\<^sub>5\<close>: a probe of \<open>x\<^sub>0\<close> propagates \<open>x\<^sub>2\<close>
  from the first ternary clause, and a probe of \<open>x\<^sub>3\<close> propagates \<open>x\<^sub>5\<close> and ends in a
  conflict.
\<close>

definition windfall_cnf :: lookahead where
  "windfall_cnf =
     new_lookahead
       (cnf_solver 7
          [(Lit 0 True, Lit 1 False), (Lit 3 True, Lit 4 False),
           (Lit 5 True, Lit 6 False), (Lit 5 True, Lit 6 True)]
          [[Lit 0 True, Lit 1 True, Lit 2 False], [Lit 3 True, Lit 4 True, Lit 5 False]])
       example_config 7"


text \<open>The four binary clauses over \<open>x\<^sub>0\<close> and \<open>x\<^sub>1\<close>.\<close>

definition pigeonhole_cnf :: lookahead where
  "pigeonhole_cnf =
     new_lookahead
       (cnf_solver 2
          [(Lit 0 False, Lit 1 False), (Lit 0 True, Lit 1 True),
           (Lit 0 False, Lit 1 True), (Lit 0 True, Lit 1 False)] [])
       example_config 2"

text \<open>The single clause \<open>x\<^sub>0 \<or> x\<^sub>1\<close>.\<close>

definition trivial_sat_cnf :: lookahead where
  "trivial_sat_cnf =
     new_lookahead (cnf_solver 2 [(Lit 0 False, Lit 1 False)] []) example_config 2"


section \<open>Verification: literals\<close>

lemma index_inj [simp]: "index a = index b \<longleftrightarrow> a = b"
proof
  assume h: "index a = index b"
  have "var a = var b \<and> sign a = sign b"
    using h unfolding index_def by (cases "sign a"; cases "sign b"; simp; presburger)
  then show "a = b" by (simp add: literal.expand)
qed simp

lemma neg_neg [simp]: "neg (neg l) = l"
  by (simp add: neg_def)

lemma neg_inj [simp]: "neg a = neg b \<longleftrightarrow> a = b"
  by (metis neg_neg)

lemma neg_neq [simp]: "neg l \<noteq> l" "l \<noteq> neg l"
  by (cases l; simp add: neg_def)+

lemma to_literal_index [simp]: "to_literal (index l) = l"
  by (cases l) (simp add: to_literal_def index_def)


section \<open>Verification: the binary adjacency lists\<close>

text \<open>
  The binary clause \<open>a \<or> b\<close> is recorded when \<open>b\<close> is among the literals listed for
  \<open>\<not>a\<close>. The lists are symmetric when this holds of \<open>a \<or> b\<close> exactly when it holds of
  \<open>b \<or> a\<close>. \<open>record_binary\<close> is the effect on the lists of an \<^verbatim>\<open>add_binary\<close> that is
  not skipped; \<open>binary_extends B0 B bt\<close> says that the lists \<open>B\<close> come from \<open>B0\<close> by
  recording binaries whose indices, in order, are \<open>bt\<close>, as \<^verbatim>\<open>m_binary_trail\<close> keeps
  them. The invariant \<open>binary_inv\<close> is that the lists come from the empty ones by the
  binaries of the whole trail.
\<close>

definition binary_symmetric :: "(nat \<Rightarrow> literal list) \<Rightarrow> bool" where
  "binary_symmetric B \<longleftrightarrow>
     (\<forall>a b. (b \<in> set (B (index (neg a)))) = (a \<in> set (B (index (neg b)))))"

definition record_binary :: "literal \<Rightarrow> literal \<Rightarrow> (nat \<Rightarrow> literal list) \<Rightarrow> nat \<Rightarrow> literal list" where
  "record_binary u v B =
     (let B1 = B(index (neg u) := B (index (neg u)) @ [v])
      in B1(index (neg v) := B1 (index (neg v)) @ [u]))"

inductive binary_extends :: "(nat \<Rightarrow> literal list) \<Rightarrow> (nat \<Rightarrow> literal list) \<Rightarrow> nat list \<Rightarrow> bool"
  for B0 where
  extends_none: "binary_extends B0 B0 []"
| extends_add:
    "binary_extends B0 B bt \<Longrightarrow> binary_extends B0 (record_binary u v B) (bt @ [index (neg u)])"

definition binary_inv :: "lookahead \<Rightarrow> bool" where
  "binary_inv s \<longleftrightarrow> binary_extends (\<lambda>_. []) (m_binary s) (m_binary_trail s)"

definition add_binary_skips :: "literal \<Rightarrow> literal \<Rightarrow> lookahead \<Rightarrow> bool" where
  "add_binary_skips u v s \<longleftrightarrow>
     neg u = v \<or> (m_binary s (index (neg u)) \<noteq> [] \<and> last (m_binary s (index (neg u))) = v)"

lemma m_binary_validate_binary [simp]: "m_binary (validate_binary u v s) = m_binary s"
  by (simp add: validate_binary_def)

lemma m_binary_trail_validate_binary [simp]:
  "m_binary_trail (validate_binary u v s) = m_binary_trail s"
  by (simp add: validate_binary_def)

lemma add_binary_skip: "add_binary_skips u v s \<Longrightarrow> add_binary u v s = s"
  by (auto simp: add_binary_skips_def add_binary_def)

lemma m_binary_add_binary:
  "m_binary (add_binary u v s) =
     (if add_binary_skips u v s then m_binary s else record_binary u v (m_binary s))"
  by (simp add: add_binary_def add_binary_skips_def record_binary_def Let_def)

lemma m_binary_trail_add_binary:
  "m_binary_trail (add_binary u v s) =
     (if add_binary_skips u v s then m_binary_trail s else m_binary_trail s @ [index (neg u)])"
  by (simp add: add_binary_def add_binary_skips_def Let_def)

lemma record_binary_symmetric:
  "binary_symmetric B \<Longrightarrow> binary_symmetric (record_binary u v B)"
  unfolding binary_symmetric_def record_binary_def Let_def
  by (auto simp: fun_upd_def)

lemma binary_extends_symmetric:
  "binary_extends B0 B bt \<Longrightarrow> binary_symmetric B0 \<Longrightarrow> binary_symmetric B"
  by (induction rule: binary_extends.induct) (simp_all add: record_binary_symmetric)

lemma binary_extends_add_binary:
  "binary_extends B0 (m_binary s) bt \<Longrightarrow> m_binary_trail s = bt0 @ bt \<Longrightarrow>
   \<exists>bt'. m_binary_trail (add_binary u v s) = bt0 @ bt'
         \<and> binary_extends B0 (m_binary (add_binary u v s)) bt'"
  by (auto simp: m_binary_add_binary m_binary_trail_add_binary intro: extends_add)

lemma binary_inv_add_binary: "binary_inv s \<Longrightarrow> binary_inv (add_binary u v s)"
  using binary_extends_add_binary [of "\<lambda>_. []" s "m_binary_trail s" "[]" u v]
  by (simp add: binary_inv_def)

lemma del_record_binary:
  "del_binary (index (neg u)) (s\<lparr>m_binary := record_binary u v B\<rparr>) = Inr (s\<lparr>m_binary := B\<rparr>)"
proof -
  define B1 where "B1 = record_binary u v B"
  define B2 where "B2 = B1(index (neg u) := butlast (B1 (index (neg u))))"
  have a: "B1 (index (neg u)) \<noteq> []" "last (B1 (index (neg u))) = v"
    by (auto simp: B1_def record_binary_def Let_def)
  have b: "B2 (index (neg v)) \<noteq> []" "last (B2 (index (neg v))) = u"
    by (auto simp: B2_def B1_def record_binary_def Let_def butlast_append)
  have c: "B2(index (neg v) := butlast (B2 (index (neg v)))) = B"
    by (rule ext) (auto simp: B2_def B1_def record_binary_def Let_def butlast_append)
  show ?thesis
    unfolding del_binary_def B1_def [symmetric]
    using a b c by (simp add: Let_def B2_def [symmetric])
qed

lemma record_binary_member:
  "v \<in> set (record_binary u v B (index (neg u))) \<and> u \<in> set (record_binary u v B (index (neg v)))"
  by (simp add: record_binary_def Let_def)

lemma binary_inv_del_binary:
  assumes "binary_inv s" "m_binary_trail s = bt @ [idx]"
  shows "(\<exists>s' a b. del_binary idx s = Inr s' \<and> binary_inv (s'\<lparr>m_binary_trail := bt\<rparr>)
                 \<and> idx = index (neg a) \<and> m_binary s = record_binary a b (m_binary s'))"
proof -
  from assms have "binary_extends (\<lambda>_. []) (m_binary s) (bt @ [idx])"
    by (simp add: binary_inv_def)
  then obtain B a b where B: "binary_extends (\<lambda>_. []) B bt" "m_binary s = record_binary a b B"
      "idx = index (neg a)"
    by (cases rule: binary_extends.cases) auto
  have "s = s\<lparr>m_binary := record_binary a b B\<rparr>" using B(2) by simp
  then have "del_binary idx s = Inr (s\<lparr>m_binary := B\<rparr>)"
    using del_record_binary [where u=a and s=s and v=b and B=B] B(3) by simp
  with B show ?thesis by (auto simp: binary_inv_def)
qed


lemma binary_inv_new_lookahead: "binary_inv (new_lookahead sol cfg n)"
  by (simp add: binary_inv_def new_lookahead_def extends_none)

lemma binary_symmetric_empty: "binary_symmetric (\<lambda>_. [])"
  by (simp add: binary_symmetric_def)

text \<open>
  Claim C6. Whenever the adjacency lists have been built by \<^verbatim>\<open>add_binary\<close> along the
  binary trail: for every recorded binary \<open>a \<or> b\<close>, \<open>b\<close> is listed for \<open>\<not>a\<close> and \<open>a\<close> for
  \<open>\<not>b\<close>; \<^verbatim>\<open>add_binary u v\<close> keeps the invariant, changes nothing for a tautology
  (\<open>\<not>u = v\<close>) and nothing when the last literal listed for \<open>\<not>u\<close> is \<open>v\<close>, and otherwise
  lists \<open>v\<close> for \<open>\<not>u\<close> and \<open>u\<close> for \<open>\<not>v\<close>; \<^verbatim>\<open>del_binary\<close> at the last index of the
  binary trail takes both entries of the binary recorded last out again and keeps the
  invariant for the shortened trail.
\<close>

theorem binary_adjacency_symmetric:
  "binary_inv s \<longrightarrow>
     binary_symmetric (m_binary s)
     \<and> binary_inv (add_binary u v s)
     \<and> (neg u = v \<longrightarrow> add_binary u v s = s)
     \<and> (m_binary s (index (neg u)) \<noteq> [] \<and> last (m_binary s (index (neg u))) = v
          \<longrightarrow> add_binary u v s = s)
     \<and> (\<not> add_binary_skips u v s \<longrightarrow>
          v \<in> set (m_binary (add_binary u v s) (index (neg u)))
          \<and> u \<in> set (m_binary (add_binary u v s) (index (neg v))))
     \<and> (\<forall>bt idx. m_binary_trail s = bt @ [idx] \<longrightarrow>
          (\<exists>s' a b. del_binary idx s = Inr s' \<and> binary_inv (s'\<lparr>m_binary_trail := bt\<rparr>)
             \<and> idx = index (neg a) \<and> m_binary s = record_binary a b (m_binary s')))"
proof (intro impI conjI allI)
  assume inv: "binary_inv s"
  show "binary_symmetric (m_binary s)"
    using inv binary_extends_symmetric [OF _ binary_symmetric_empty]
    by (simp add: binary_inv_def)
  show "binary_inv (add_binary u v s)"
    using inv by (rule binary_inv_add_binary)
  show "add_binary u v s = s" if "neg u = v"
    using that by (simp add: add_binary_skip add_binary_skips_def)
  show "add_binary u v s = s"
    if "m_binary s (index (neg u)) \<noteq> [] \<and> last (m_binary s (index (neg u))) = v"
    using that by (simp add: add_binary_skip add_binary_skips_def)
  show "v \<in> set (m_binary (add_binary u v s) (index (neg u)))"
    if "\<not> add_binary_skips u v s"
    using that record_binary_member [of v u] by (simp add: m_binary_add_binary)
  show "u \<in> set (m_binary (add_binary u v s) (index (neg v)))"
    if "\<not> add_binary_skips u v s"
    using that record_binary_member [of v u] by (simp add: m_binary_add_binary)
  show "\<exists>s' a b. del_binary idx s = Inr s' \<and> binary_inv (s'\<lparr>m_binary_trail := bt\<rparr>)
          \<and> idx = index (neg a) \<and> m_binary s = record_binary a b (m_binary s')"
    if "m_binary_trail s = bt @ [idx]" for bt idx
    using inv that by (rule binary_inv_del_binary)
qed

lemmas eval_lits = index_def neg_def to_literal_def

theorem binary_adjacency_symmetric_witness:
  "binary_inv (add_binary (Lit 0 False) (Lit 1 False) two_var_state)
   \<and> binary_symmetric (m_binary (add_binary (Lit 0 False) (Lit 1 False) two_var_state))
   \<and> binary_inv (add_binary (Lit 1 True) (Lit 0 False)
        (add_binary (Lit 0 False) (Lit 1 False) two_var_state))
   \<and> add_binary (Lit 0 False) (Lit 0 True) (add_binary (Lit 0 False) (Lit 1 False) two_var_state)
       = add_binary (Lit 0 False) (Lit 1 False) two_var_state
   \<and> add_binary (Lit 0 False) (Lit 1 False) (add_binary (Lit 0 False) (Lit 1 False) two_var_state)
       = add_binary (Lit 0 False) (Lit 1 False) two_var_state
   \<and> Lit 0 False \<in> set (m_binary (add_binary (Lit 1 True) (Lit 0 False)
        (add_binary (Lit 0 False) (Lit 1 False) two_var_state)) (index (neg (Lit 1 True))))
   \<and> (\<exists>s' a b. del_binary 1 (add_binary (Lit 0 False) (Lit 1 False) two_var_state) = Inr s'
        \<and> binary_inv (s'\<lparr>m_binary_trail := []\<rparr>) \<and> 1 = index (neg a)
        \<and> m_binary (add_binary (Lit 0 False) (Lit 1 False) two_var_state)
            = record_binary a b (m_binary s'))"
proof -
  define w where "w = add_binary (Lit 0 False) (Lit 1 False) two_var_state"
  have inv: "binary_inv w"
    unfolding w_def two_var_state_def
    by (intro binary_inv_add_binary binary_inv_new_lookahead)
  have bin: "m_binary w = (\<lambda>_. [])(1 := [Lit 1 False], 3 := [Lit 0 False])"
    by (simp add: w_def two_var_state_def m_binary_add_binary add_binary_skips_def
        record_binary_def new_lookahead_def eval_lits)
  have trail: "m_binary_trail w = [] @ [1]"
    by (simp add: w_def two_var_state_def m_binary_trail_add_binary add_binary_skips_def
        new_lookahead_def eval_lits)
  have skip1: "neg (Lit 0 False) = Lit 0 True" by (simp add: neg_def)
  have skip2: "m_binary w (index (neg (Lit 0 False))) \<noteq> []
                \<and> last (m_binary w (index (neg (Lit 0 False)))) = Lit 1 False"
    by (simp add: bin eval_lits)
  have noskip: "\<not> add_binary_skips (Lit 1 True) (Lit 0 False) w"
    by (simp add: add_binary_skips_def bin eval_lits)
  show ?thesis
    unfolding w_def [symmetric]
    using binary_adjacency_symmetric [of w "Lit 1 True" "Lit 0 False"]
      binary_adjacency_symmetric [of w "Lit 0 False" "Lit 0 True"]
      binary_adjacency_symmetric [of w "Lit 0 False" "Lit 1 False"]
      inv trail skip1 skip2 noskip
    by blast
qed


section \<open>Verification: stamps\<close>

text \<open>
  No slot of the stamp table is above the epoch id: \<^verbatim>\<open>init\<close> starts from id 0 over a
  zero table, \<^verbatim>\<open>set_bstamp\<close> stores the id itself and \<^verbatim>\<open>inc_bstamp\<close> raises the id.
\<close>

definition bstamp_inv :: "lookahead \<Rightarrow> bool" where
  "bstamp_inv s \<longleftrightarrow> (\<forall>i. m_bstamp s i \<le> m_bstamp_id s)"

lemma word_le_neq_succ:
  fixes x y :: "32 word"
  assumes "x \<le> y" "y + 1 \<noteq> 0"
  shows "x \<noteq> y + 1" "x \<le> y + 1"
  using assms by unat_arith+

lemma inc_bstamp_not_stamped:
  assumes "bstamp_inv s"
  shows "\<not> is_stamped (inc_bstamp s) l"
proof (cases "m_bstamp_id s + 1 = 0")
  case True
  then show ?thesis by (simp add: inc_bstamp_def is_stamped_def Let_def)
next
  case False
  from assms have "m_bstamp s (index l) \<le> m_bstamp_id s" by (simp add: bstamp_inv_def)
  from word_le_neq_succ(1) [OF this False] False
  show ?thesis by (simp add: inc_bstamp_def is_stamped_def Let_def)
qed

lemma inc_bstamp_inv:
  assumes "bstamp_inv s"
  shows "bstamp_inv (inc_bstamp s)"
proof (cases "m_bstamp_id s + 1 = 0")
  case True
  then show ?thesis by (simp add: inc_bstamp_def bstamp_inv_def Let_def)
next
  case False
  have "m_bstamp s i \<le> m_bstamp_id s + 1" for i
    using assms word_le_neq_succ(2) [OF _ False] by (simp add: bstamp_inv_def)
  with False show ?thesis by (simp add: inc_bstamp_def bstamp_inv_def Let_def)
qed

lemma set_bstamp_inv: "bstamp_inv s \<Longrightarrow> bstamp_inv (set_bstamp l s)"
  by (simp add: bstamp_inv_def set_bstamp_def)

lemma inc_bstamp_wrap:
  "m_bstamp_id s + 1 = 0 \<Longrightarrow>
   m_bstamp_id (inc_bstamp s) = 1 \<and> m_bstamp (inc_bstamp s) = (\<lambda>_. 0)"
  by (simp add: inc_bstamp_def Let_def)


lemma bstamp_inv_new_lookahead: "bstamp_inv (new_lookahead sol cfg n)"
  by (simp add: bstamp_inv_def new_lookahead_def)

text \<open>
  Claim C8. In every state where no slot of the stamp table is above the epoch id, which
  \<^verbatim>\<open>set_bstamp\<close> and \<^verbatim>\<open>inc_bstamp\<close> keep so, no literal is stamped after
  \<^verbatim>\<open>inc_bstamp\<close>; and when the increment of the epoch id wraps around to 0, the table is
  filled with 0 and the id is incremented a second time, to 1.
\<close>

theorem inc_bstamp_no_literal_stamped:
  "(bstamp_inv s \<longrightarrow>
      (\<forall>l. \<not> is_stamped (inc_bstamp s) l)
      \<and> bstamp_inv (inc_bstamp s) \<and> bstamp_inv (set_bstamp l' s))
   \<and> (m_bstamp_id s + 1 = 0 \<longrightarrow>
        m_bstamp_id (inc_bstamp s) = 1 \<and> m_bstamp (inc_bstamp s) = (\<lambda>_. 0))"
  using inc_bstamp_not_stamped [of s] inc_bstamp_inv [of s] set_bstamp_inv [of s l']
    inc_bstamp_wrap [of s]
  by blast

theorem inc_bstamp_no_literal_stamped_witness:
  "bstamp_inv (set_bstamp (Lit 0 False) (two_var_state\<lparr>m_bstamp_id := - 1\<rparr>))
   \<and> (\<forall>l. \<not> is_stamped
          (inc_bstamp (set_bstamp (Lit 0 False) (two_var_state\<lparr>m_bstamp_id := - 1\<rparr>))) l)
   \<and> m_bstamp_id (inc_bstamp (set_bstamp (Lit 0 False) (two_var_state\<lparr>m_bstamp_id := - 1\<rparr>))) = 1
   \<and> m_bstamp (inc_bstamp (set_bstamp (Lit 0 False) (two_var_state\<lparr>m_bstamp_id := - 1\<rparr>)))
       = (\<lambda>_. 0)"
proof -
  define w where "w = set_bstamp (Lit 0 False) (two_var_state\<lparr>m_bstamp_id := - 1\<rparr>)"
  have inv: "bstamp_inv w"
    by (simp add: w_def bstamp_inv_def set_bstamp_def two_var_state_def new_lookahead_def)
  have wrap: "m_bstamp_id w + 1 = 0"
    by (simp add: w_def set_bstamp_def)
  show ?thesis
    unfolding w_def [symmetric]
    using inc_bstamp_no_literal_stamped [of w] inv wrap by blast
qed


section \<open>Verification: what a scope of the search extends\<close>

text \<open>
  \<open>lims\<close> are the six scope stacks. \<open>scope_ext s s'\<close> says that \<open>s'\<close> comes from \<open>s\<close>
  within one scope: the trail, the binary trail and the two lists of retired clauses
  have only grown at the end, the adjacency lists are those of \<open>s\<close> with the binaries of
  the new part of the binary trail recorded, and the scope stacks and the assumptions
  are the same. Assigning, adding binaries, retiring clauses and the whole of
  \<^verbatim>\<open>propagate\<close> stay within it.
\<close>

definition lims :: "lookahead \<Rightarrow> nat list \<times> nat list \<times> nat list \<times> nat list \<times> nat list \<times> nat list" where
  "lims s = (m_binary_trail_lim s, m_trail_lim s, m_num_tc1_lim s, m_retired_clause_lim s,
             m_retired_ternary_lim s, m_qhead_lim s)"

definition scope_fields where
  "scope_fields s = (m_trail s, m_binary s, m_binary_trail s, m_retired_clauses s,
                     m_retired_ternary s, m_assumptions s, lims s)"

definition scope_ext :: "lookahead \<Rightarrow> lookahead \<Rightarrow> bool" where
  "scope_ext s s' \<longleftrightarrow>
     (\<exists>t. m_trail s' = m_trail s @ t)
     \<and> (\<exists>bt. m_binary_trail s' = m_binary_trail s @ bt \<and> binary_extends (m_binary s) (m_binary s') bt)
     \<and> (\<exists>rc. m_retired_clauses s' = m_retired_clauses s @ rc)
     \<and> (\<exists>rt. m_retired_ternary s' = m_retired_ternary s @ rt)
     \<and> m_assumptions s' = m_assumptions s
     \<and> lims s' = lims s"

lemma binary_extends_trans:
  "binary_extends B1 B2 bt2 \<Longrightarrow> binary_extends B0 B1 bt1 \<Longrightarrow> binary_extends B0 B2 (bt1 @ bt2)"
proof (induction rule: binary_extends.induct)
  case extends_none
  then show ?case by simp
next
  case (extends_add B bt u v)
  then have "binary_extends B0 (record_binary u v B) ((bt1 @ bt) @ [index (neg u)])"
    by (intro binary_extends.extends_add) simp
  then show ?case by simp
qed

lemma scope_ext_refl [simp]: "scope_ext s s"
  by (simp add: scope_ext_def extends_none)

lemma scope_ext_trans: "scope_ext s0 s1 \<Longrightarrow> scope_ext s1 s2 \<Longrightarrow> scope_ext s0 s2"
  unfolding scope_ext_def
  by (elim conjE exE, intro conjI) (auto intro: binary_extends_trans)

lemma scope_ext_same: "scope_fields s' = scope_fields s \<Longrightarrow> scope_ext s0 s \<Longrightarrow> scope_ext s0 s'"
  by (simp add: scope_ext_def scope_fields_def)

lemma scope_fields_assign:
  "scope_fields (assign l s) = scope_fields s
   \<or> scope_fields (assign l s) = scope_fields (s\<lparr>m_trail := m_trail s @ [l]\<rparr>)"
  by (simp add: assign_def Let_def scope_fields_def lims_def set_true_def validate_assign_def
      freevars_remove_def set_conflict_def)

lemma scope_ext_assign: "scope_ext s0 s \<Longrightarrow> scope_ext s0 (assign l s)"
proof -
  assume a: "scope_ext s0 s"
  have "scope_ext s (s\<lparr>m_trail := m_trail s @ [l]\<rparr>)"
    by (simp add: scope_ext_def lims_def extends_none)
  with a have b: "scope_ext s0 (s\<lparr>m_trail := m_trail s @ [l]\<rparr>)" by (rule scope_ext_trans)
  from scope_fields_assign [of l s] show ?thesis
    using a b by (auto intro: scope_ext_same)
qed

lemma scope_ext_add_binary: "scope_ext s0 s \<Longrightarrow> scope_ext s0 (add_binary u v s)"
proof -
  assume a: "scope_ext s0 s"
  have "scope_ext s (add_binary u v s)"
  proof (cases "add_binary_skips u v s")
    case True
    then show ?thesis by (simp add: add_binary_skip)
  next
    case False
    have "binary_extends (m_binary s) (record_binary u v (m_binary s)) ([] @ [index (neg u)])"
      by (intro extends_add extends_none)
    with False show ?thesis
      by (simp add: scope_ext_def m_binary_add_binary m_binary_trail_add_binary)
         (simp add: add_binary_def add_binary_skips_def Let_def lims_def validate_binary_def)
  qed
  with a show ?thesis by (rule scope_ext_trans)
qed

lemma scope_fields_inc_bstamp [simp]: "scope_fields (inc_bstamp s) = scope_fields s"
  by (simp add: inc_bstamp_def Let_def scope_fields_def lims_def)

lemma scope_fields_set_bstamp [simp]: "scope_fields (set_bstamp l s) = scope_fields s"
  by (simp add: set_bstamp_def scope_fields_def lims_def)

lemma scope_fields_fold_set_bstamp [simp]: "scope_fields (fold set_bstamp ls s) = scope_fields s"
  by (induction ls arbitrary: s) simp_all

lemma scope_fields_set_bstamps [simp]: "scope_fields (set_bstamps l s) = scope_fields s"
  by (simp add: set_bstamps_def Let_def)

lemma scope_fields_update_prefix [simp]: "scope_fields (update_prefix l s) = scope_fields s"
  by (simp add: update_prefix_def Let_def scope_fields_def lims_def)

lemma scope_fields_set_conflict [simp]: "scope_fields (set_conflict s) = scope_fields s"
  by (simp add: set_conflict_def scope_fields_def lims_def)

lemma scope_ext_set_bstamps: "scope_ext s0 s \<Longrightarrow> scope_ext s0 (set_bstamps l s)"
  by (rule scope_ext_same [OF scope_fields_set_bstamps])

lemma scope_ext_update_prefix: "scope_ext s0 s \<Longrightarrow> scope_ext s0 (update_prefix l s)"
  by (rule scope_ext_same [OF scope_fields_update_prefix])

lemma scope_ext_set_conflict: "scope_ext s0 s \<Longrightarrow> scope_ext s0 (set_conflict s)"
  by (rule scope_ext_same [OF scope_fields_set_conflict])

lemma scope_ext_propagated: "scope_ext s0 s \<Longrightarrow> scope_ext s0 (propagated l s)"
proof -
  assume "scope_ext s0 s"
  then have a: "scope_ext s0 (assign l s)" by (rule scope_ext_assign)
  have "scope_fields (propagated l s) = scope_fields (assign l s)"
    by (simp add: propagated_def Let_def scope_fields_def lims_def split: lookahead_mode.splits)
  from scope_ext_same [OF this a] show ?thesis .
qed

lemma scope_ext_num_tc1: "scope_ext s0 s \<Longrightarrow> scope_ext s0 (s\<lparr>m_num_tc1 := n\<rparr>)"
  by (erule scope_ext_same [rotated]) (simp add: scope_fields_def lims_def)

lemma scope_ext_add_tc1_loop:
  "scope_ext s0 s \<Longrightarrow> scope_ext s0 (snd (add_tc1_loop u ws s))"
proof (induction u ws s rule: add_tc1_loop.induct)
  case (1 u s)
  then show ?case by simp
next
  case (2 u w ws s)
  then show ?case
    by (auto intro!: scope_ext_assign scope_ext_add_binary scope_ext_num_tc1)
qed

lemma scope_ext_add_tc1: "scope_ext s0 s \<Longrightarrow> scope_ext s0 (snd (add_tc1 u v s))"
  by (simp add: add_tc1_def scope_ext_add_tc1_loop)

lemma scope_ext_verbose: "scope_ext s0 s \<Longrightarrow> scope_ext s0 (s\<lparr>m_verbose := v\<rparr>)"
  by (erule scope_ext_same [rotated]) (simp add: scope_fields_def lims_def)

lemma scope_ext_try_add_binary: "scope_ext s0 s \<Longrightarrow> scope_ext s0 (try_add_binary u v s)"
proof -
  assume a: "scope_ext s0 s"
  define sa where "sa = (if \<not> is_undef s u \<or> \<not> is_undef s v
                then s\<lparr>m_verbose := m_verbose s @ [Adding_assigned_binary v u]\<rparr> else s)"
  define s1 where "s1 = set_bstamps (neg u) sa"
  define s2 where "s2 = snd (add_tc1 u v s1)"
  define s3 where "s3 = set_bstamps (neg v) s2"
  define s4 where "s4 = snd (add_tc1 v u s3)"
  have e0: "scope_ext s0 sa" using a by (simp add: sa_def scope_ext_verbose)
  then have e1: "scope_ext s0 s1" by (simp add: s1_def scope_ext_set_bstamps)
  then have e2: "scope_ext s0 s2" by (simp add: s2_def scope_ext_add_tc1)
  then have e3: "scope_ext s0 s3" by (simp add: s3_def scope_ext_set_bstamps)
  then have e4: "scope_ext s0 s4" by (simp add: s4_def scope_ext_add_tc1)
  have "try_add_binary u v s \<in> {assign u s1, s1, s2, assign v s3, s4,
          add_binary u v (update_prefix v (update_prefix u s4))}"
    unfolding try_add_binary_def sa_def [symmetric] Let_def s1_def [symmetric]
    by (auto simp: s2_def s3_def s4_def split: prod.splits)
  with e1 e2 e3 e4 show ?thesis
    by (auto intro!: scope_ext_assign scope_ext_add_binary scope_ext_update_prefix)
qed

lemma scope_ext_detach_ternary: "scope_ext s0 s \<Longrightarrow> scope_ext s0 (detach_ternary l1 l2 l3 s)"
proof -
  assume a: "scope_ext s0 s"
  have "scope_ext s (detach_ternary l1 l2 l3 s)"
    by (simp add: scope_ext_def detach_ternary_def Let_def lims_def extends_none)
  with a show ?thesis by (rule scope_ext_trans)
qed

lemma scope_ext_detach_clause: "scope_ext s0 s \<Longrightarrow> scope_ext s0 (detach_clause off s)"
proof -
  assume a: "scope_ext s0 s"
  have "scope_ext s (detach_clause off s)"
    by (simp add: scope_ext_def detach_clause_def Let_def lims_def extends_none)
  with a show ?thesis by (rule scope_ext_trans)
qed

lemma scope_ext_wnb:
  "scope_ext s0 s \<Longrightarrow> scope_ext s0 (s\<lparr>m_weighted_new_binaries := x\<rparr>)"
  by (erule scope_ext_same [rotated]) (simp add: scope_fields_def lims_def)

lemma scope_ext_cls:
  "scope_ext s0 s \<Longrightarrow> scope_ext s0 (s\<lparr>m_cls_allocator := x\<rparr>)"
  by (erule scope_ext_same [rotated]) (simp add: scope_fields_def lims_def)

lemma scope_ext_watches:
  "scope_ext s0 s \<Longrightarrow> scope_ext s0 (s\<lparr>m_watches := x\<rparr>)"
  by (erule scope_ext_same [rotated]) (simp add: scope_fields_def lims_def)

lemma scope_ext_push_watch: "scope_ext s0 s \<Longrightarrow> scope_ext s0 (push_watch l w s)"
  by (simp add: push_watch_def scope_ext_watches)

lemma scope_ext_qhead:
  "scope_ext s0 s \<Longrightarrow> scope_ext s0 (s\<lparr>m_qhead := x\<rparr>)"
  by (erule scope_ext_same [rotated]) (simp add: scope_fields_def lims_def)

lemmas scope_ext_steps =
  scope_ext_assign scope_ext_add_binary scope_ext_set_bstamps scope_ext_update_prefix
  scope_ext_set_conflict scope_ext_propagated scope_ext_try_add_binary
  scope_ext_detach_ternary scope_ext_detach_clause scope_ext_wnb scope_ext_cls
  scope_ext_watches scope_ext_push_watch scope_ext_qhead

lemma scope_ext_propagate_ternary_watch:
  "scope_ext s0 s \<Longrightarrow> scope_ext s0 (snd (propagate_ternary_watch l l1 l2 s))"
  by (auto simp: propagate_ternary_watch_def intro!: scope_ext_steps
      split: lookahead_mode.splits)

lemma scope_ext_propagate_clause_watch:
  "scope_ext s0 s \<Longrightarrow> scope_ext s0 (snd (propagate_clause_watch l blocked off s))"
  by (auto simp: propagate_clause_watch_def Let_def intro!: scope_ext_steps
      split: lookahead_mode.splits option.splits)

lemma scope_ext_fold_assign: "scope_ext s0 s \<Longrightarrow> scope_ext s0 (fold assign ls s)"
  by (induction ls arbitrary: s) (simp_all add: scope_ext_assign)

lemma scope_ext_propagate_ext_watch:
  "scope_ext s0 s \<Longrightarrow> scope_ext s0 (snd (propagate_ext_watch l idx s))"
  by (auto simp: propagate_ext_watch_def Let_def intro!: scope_ext_steps scope_ext_fold_assign
      split: prod.splits)

lemma scope_ext_propagate_watch:
  "scope_ext s0 s \<Longrightarrow> scope_ext s0 (snd (propagate_watch l w s))"
  by (cases w)
     (simp_all add: scope_ext_propagate_ternary_watch scope_ext_propagate_clause_watch
        scope_ext_propagate_ext_watch)

lemma scope_ext_propagate_clauses_loop:
  "scope_ext s0 s \<Longrightarrow> scope_ext s0 (snd (propagate_clauses_loop l ws kept s))"
proof (induction ws arbitrary: kept s)
  case Nil
  then show ?case by simp
next
  case (Cons w ws)
  from Cons.prems have "scope_ext s0 (snd (propagate_watch l w s))"
    by (rule scope_ext_propagate_watch)
  from Cons.IH [OF this] Cons.prems show ?case
    by (simp add: split_beta)
qed

lemma scope_ext_propagate_clauses: "scope_ext s0 s \<Longrightarrow> scope_ext s0 (propagate_clauses l s)"
  by (simp add: propagate_clauses_def split_beta scope_ext_watches
      scope_ext_propagate_clauses_loop)

lemma scope_ext_propagate_binary_loop:
  "scope_ext s0 s \<Longrightarrow> scope_ext s0 (propagate_binary_loop ws s)"
  by (induction ws arbitrary: s) (simp_all add: scope_ext_assign)

lemma scope_ext_propagate_binary: "scope_ext s0 s \<Longrightarrow> scope_ext s0 (propagate_binary l s)"
  by (simp add: propagate_binary_def scope_ext_propagate_binary_loop)

lemma scope_ext_propagate_binary_pass:
  "scope_ext s0 s \<Longrightarrow> scope_ext s0 (propagate_binary_pass ls s)"
  by (induction ls arbitrary: s) (simp_all add: scope_ext_propagate_binary)

lemma scope_ext_propagate_clauses_pass:
  "scope_ext s0 s \<Longrightarrow> scope_ext s0 (propagate_clauses_pass ls s)"
  by (induction ls arbitrary: s) (simp_all add: scope_ext_propagate_clauses)

lemma scope_ext_propagate_all:
  assumes major: "propagate s = Some s'"
  shows "\<forall>s0. scope_ext s0 s \<longrightarrow> scope_ext s0 s'"
proof (rule propagate.raw_induct [OF _ major], goal_cases)
  case (1 propagate' s s')
  show ?case
  proof (cases "\<not> inconsistent s \<and> m_qhead s < length (m_trail s)")
    case True
    define s2 where "s2 = (propagate_clauses_pass (drop (m_qhead s) (m_trail s))
        (propagate_binary_pass (drop (m_qhead s) (m_trail s)) s))\<lparr>m_qhead := length (m_trail s)\<rparr>"
    from True 1(2) have "propagate' s2 = Some s'"
      by (simp add: Let_def s2_def)
    from 1(1) [OF this] have "\<forall>s0. scope_ext s0 s2 \<longrightarrow> scope_ext s0 s'" .
    moreover have "scope_ext s0 s2" if "scope_ext s0 s" for s0
      unfolding s2_def using that
      by (intro scope_ext_qhead scope_ext_propagate_clauses_pass scope_ext_propagate_binary_pass)
    ultimately show ?thesis by blast
  next
    case False
    with 1(2) show ?thesis by (simp split: if_splits)
  qed
qed

lemma scope_ext_propagate:
  "propagate s = Some s' \<Longrightarrow> scope_ext s0 s \<Longrightarrow> scope_ext s0 s'"
  using scope_ext_propagate_all by blast

section \<open>Verification: push and pop\<close>

text \<open>
  \<open>scope_state\<close> collects what \<^verbatim>\<open>pop\<close> restores; \<open>push_marks\<close> is the state right after
  \<^verbatim>\<open>push\<close> has recorded its marks and its assumption.
\<close>

definition scope_state where
  "scope_state s = (m_trail s, m_binary s, m_binary_trail s, m_retired_clauses s,
                    m_retired_ternary s, m_qhead s, m_num_tc1 s, m_assumptions s, lims s)"

lemma scope_state_undo [simp]:
  "scope_state (fold (\<lambda>l t. freevars_insert (var l) (set_undef l t)) ls s) = scope_state s"
  by (induction ls arbitrary: s)
     (simp_all add: scope_state_def lims_def freevars_insert_def set_undef_def)

lemma scope_state_attach_ternary [simp]:
  "scope_state (attach_ternary u v w s) = scope_state s"
  by (simp add: attach_ternary_def push_watch_def scope_state_def lims_def)

lemma scope_state_attach_clause [simp]: "scope_state (attach_clause off s) = scope_state s"
  by (simp add: attach_clause_def Let_def)
     (simp add: push_watch_def scope_state_def lims_def)

lemma scope_state_fold_attach_clause [simp]:
  "scope_state (fold attach_clause offs s) = scope_state s"
  by (induction offs arbitrary: s) simp_all

lemma scope_state_fold_attach_ternary [simp]:
  "scope_state (fold (\<lambda>(u, v, w). attach_ternary u v w) ts s) = scope_state s"
  by (induction ts arbitrary: s) (simp_all add: split_beta)

text \<open>Deleting the binaries of a trail segment, last first, gives back the lists before it.\<close>

lemma del_binaries_extends:
  "binary_extends B0 B bt \<Longrightarrow> m_binary s = B \<Longrightarrow>
   del_binaries (rev bt) s = Inr (s\<lparr>m_binary := B0\<rparr>)"
proof (induction arbitrary: s rule: binary_extends.induct)
  case extends_none
  then show ?case by simp
next
  case (extends_add B bt u v)
  have "s = s\<lparr>m_binary := record_binary u v B\<rparr>"
    using extends_add.prems by simp
  then have "del_binary (index (neg u)) s = Inr (s\<lparr>m_binary := B\<rparr>)"
    using del_record_binary [where s = s and u = u and v = v and B = B] by simp
  moreover have "del_binaries (rev bt) (s\<lparr>m_binary := B\<rparr>) = Inr (s\<lparr>m_binary := B0\<rparr>)"
    using extends_add.IH [of "s\<lparr>m_binary := B\<rparr>"] by simp
  ultimately show ?case by (simp add: rbind_def)
qed

definition push_marks :: "literal \<Rightarrow> lookahead \<Rightarrow> lookahead" where
  "push_marks lit s =
     s\<lparr>m_binary_trail_lim := m_binary_trail_lim s @ [length (m_binary_trail s)],
       m_trail_lim := m_trail_lim s @ [length (m_trail s)],
       m_num_tc1_lim := m_num_tc1_lim s @ [m_num_tc1 s],
       m_retired_clause_lim := m_retired_clause_lim s @ [length (m_retired_clauses s)],
       m_retired_ternary_lim := m_retired_ternary_lim s @ [length (m_retired_ternary s)],
       m_qhead_lim := m_qhead_lim s @ [m_qhead s],
       m_assumptions := m_assumptions s @ [neg lit]\<rparr>"

lemma scope_stateD:
  assumes "scope_state a = scope_state b"
  shows "m_trail a = m_trail b" "m_binary a = m_binary b" "m_binary_trail a = m_binary_trail b"
    "m_retired_clauses a = m_retired_clauses b" "m_retired_ternary a = m_retired_ternary b"
    "m_qhead a = m_qhead b" "m_num_tc1 a = m_num_tc1 b" "m_assumptions a = m_assumptions b"
    "m_binary_trail_lim a = m_binary_trail_lim b" "m_trail_lim a = m_trail_lim b"
    "m_num_tc1_lim a = m_num_tc1_lim b" "m_retired_clause_lim a = m_retired_clause_lim b"
    "m_retired_ternary_lim a = m_retired_ternary_lim b" "m_qhead_lim a = m_qhead_lim b"
  using assms by (simp_all add: scope_state_def lims_def)

lemma pop_assumption_ok:
  assumes "m_assumptions s = as @ [a]"
  shows "\<exists>s'. pop_assumption s = Inr s'
           \<and> scope_state s' = scope_state (s\<lparr>m_assumptions := as\<rparr>)"
  using assms by (simp add: pop_assumption_def scope_state_def lims_def)

lemma pop_trail_ok:
  assumes "m_trail_lim s = tls @ [length tr]" "m_trail s = tr @ t"
  shows "\<exists>s'. pop_trail s = Inr s'
           \<and> scope_state s' = scope_state (s\<lparr>m_trail := tr, m_trail_lim := tls\<rparr>)"
proof -
  define u where "u = fold (\<lambda>l t. freevars_insert (var l) (set_undef l t))
                        (rev (drop (last (m_trail_lim s)) (m_trail s))) s"
  have "scope_state u = scope_state s" by (simp add: u_def)
  note f = scope_stateD [OF this]
  have "pop_trail s = Inr (u\<lparr>m_trail := take (length tr) (m_trail u),
                               m_trail_lim := butlast (m_trail_lim u)\<rparr>)"
    unfolding pop_trail_def Let_def u_def [symmetric]
    using assms f by simp
  moreover have "scope_state (u\<lparr>m_trail := take (length tr) (m_trail u),
                               m_trail_lim := butlast (m_trail_lim u)\<rparr>)
                  = scope_state (s\<lparr>m_trail := tr, m_trail_lim := tls\<rparr>)"
    using assms f by (simp add: scope_state_def lims_def)
  ultimately show ?thesis by simp
qed

lemma pop_num_tc1_ok:
  assumes "m_num_tc1_lim s = nl @ [n]"
  shows "\<exists>s'. pop_num_tc1 s = Inr s'
           \<and> scope_state s' = scope_state (s\<lparr>m_num_tc1 := n, m_num_tc1_lim := nl\<rparr>)"
  using assms by (simp add: pop_num_tc1_def)

lemma pop_retired_clauses_ok:
  assumes "m_retired_clause_lim s = rl @ [length rc0]" "m_retired_clauses s = rc0 @ rc"
  shows "\<exists>s'. pop_retired_clauses s = Inr s'
           \<and> scope_state s' = scope_state (s\<lparr>m_retired_clauses := rc0, m_retired_clause_lim := rl\<rparr>)"
proof -
  define u where "u = fold attach_clause (drop (last (m_retired_clause_lim s)) (m_retired_clauses s)) s"
  have "scope_state u = scope_state s" by (simp add: u_def)
  note f = scope_stateD [OF this]
  have "pop_retired_clauses s = Inr (u\<lparr>m_retired_clauses := resize (length rc0) (m_retired_clauses u),
                               m_retired_clause_lim := butlast (m_retired_clause_lim u)\<rparr>)"
    unfolding pop_retired_clauses_def Let_def u_def [symmetric]
    using assms f by simp
  moreover have "scope_state (u\<lparr>m_retired_clauses := resize (length rc0) (m_retired_clauses u),
                               m_retired_clause_lim := butlast (m_retired_clause_lim u)\<rparr>)
                  = scope_state (s\<lparr>m_retired_clauses := rc0, m_retired_clause_lim := rl\<rparr>)"
    using assms f by (simp add: scope_state_def lims_def resize_def)
  ultimately show ?thesis by simp
qed

lemma pop_retired_ternary_ok:
  assumes "m_retired_ternary_lim s = rl @ [length rt0]" "m_retired_ternary s = rt0 @ rt"
  shows "\<exists>s'. pop_retired_ternary s = Inr s'
           \<and> scope_state s' = scope_state (s\<lparr>m_retired_ternary := rt0, m_retired_ternary_lim := rl\<rparr>)"
proof -
  define u where "u = fold (\<lambda>(u, v, w). attach_ternary u v w)
                        (drop (last (m_retired_ternary_lim s)) (m_retired_ternary s)) s"
  have "scope_state u = scope_state s" by (simp add: u_def)
  note f = scope_stateD [OF this]
  have "pop_retired_ternary s = Inr (u\<lparr>m_retired_ternary := take (length rt0) (m_retired_ternary u),
                               m_retired_ternary_lim := butlast (m_retired_ternary_lim u)\<rparr>)"
    unfolding pop_retired_ternary_def Let_def u_def [symmetric]
    using assms f by simp
  moreover have "scope_state (u\<lparr>m_retired_ternary := take (length rt0) (m_retired_ternary u),
                               m_retired_ternary_lim := butlast (m_retired_ternary_lim u)\<rparr>)
                  = scope_state (s\<lparr>m_retired_ternary := rt0, m_retired_ternary_lim := rl\<rparr>)"
    using assms f by (simp add: scope_state_def lims_def)
  ultimately show ?thesis by simp
qed

lemma pop_binaries_ok:
  assumes "m_binary_trail_lim s = bl @ [length bt0]" "m_binary_trail s = bt0 @ bt"
    "binary_extends B0 (m_binary s) bt"
  shows "\<exists>s'. pop_binaries s = Inr s'
           \<and> scope_state s' = scope_state (s\<lparr>m_binary := B0, m_binary_trail := bt0,
                                               m_binary_trail_lim := bl\<rparr>)"
proof -
  have "del_binaries (rev bt) s = Inr (s\<lparr>m_binary := B0\<rparr>)"
    using assms(3) by (rule del_binaries_extends) simp
  then show ?thesis
    using assms(1,2) by (simp add: pop_binaries_def rbind_def scope_state_def lims_def)
qed

lemma pop_qhead_ok:
  assumes "m_qhead_lim s = ql @ [q]"
  shows "\<exists>s'. pop_qhead s = Inr s'
           \<and> scope_state s' = scope_state (s\<lparr>m_qhead := q, m_qhead_lim := ql\<rparr>)"
  using assms by (simp add: pop_qhead_def)

lemma pop_restores:
  assumes ext: "scope_ext (push_marks lit s) s1"
  shows "\<exists>s2. pop s1 = Inr s2 \<and> scope_state s2 = scope_state s"
proof -
  from ext obtain t bt rc rt where
    tr: "m_trail s1 = m_trail s @ t" and
    btr: "m_binary_trail s1 = m_binary_trail s @ bt" and
    bin: "binary_extends (m_binary s) (m_binary s1) bt" and
    rcl: "m_retired_clauses s1 = m_retired_clauses s @ rc" and
    rtl: "m_retired_ternary s1 = m_retired_ternary s @ rt" and
    asm: "m_assumptions s1 = m_assumptions s @ [neg lit]" and
    lm: "lims s1 = lims (push_marks lit s)"
    by (auto simp: scope_ext_def push_marks_def)
  from lm have lm':
    "m_binary_trail_lim s1 = m_binary_trail_lim s @ [length (m_binary_trail s)]"
    "m_trail_lim s1 = m_trail_lim s @ [length (m_trail s)]"
    "m_num_tc1_lim s1 = m_num_tc1_lim s @ [m_num_tc1 s]"
    "m_retired_clause_lim s1 = m_retired_clause_lim s @ [length (m_retired_clauses s)]"
    "m_retired_ternary_lim s1 = m_retired_ternary_lim s @ [length (m_retired_ternary s)]"
    "m_qhead_lim s1 = m_qhead_lim s @ [m_qhead s]"
    by (simp_all add: lims_def push_marks_def)
  from pop_assumption_ok [OF asm] obtain a1 where
    p1: "pop_assumption s1 = Inr a1" and
    e1: "scope_state a1 = scope_state (s1\<lparr>m_assumptions := m_assumptions s\<rparr>)" by blast
  note f1 = scope_stateD [OF e1]
  have "\<exists>s'. pop_trail a1 = Inr s'
           \<and> scope_state s' = scope_state (a1\<lparr>m_trail := m_trail s, m_trail_lim := m_trail_lim s\<rparr>)"
    by (rule pop_trail_ok [where t = t]) (simp_all add: f1 lm' tr)
  then obtain a2 where p2: "pop_trail a1 = Inr a2" and
    e2: "scope_state a2 = scope_state (a1\<lparr>m_trail := m_trail s, m_trail_lim := m_trail_lim s\<rparr>)"
    by blast
  note f2 = scope_stateD [OF e2]
  have "\<exists>s'. pop_num_tc1 a2 = Inr s'
           \<and> scope_state s' = scope_state (a2\<lparr>m_num_tc1 := m_num_tc1 s, m_num_tc1_lim := m_num_tc1_lim s\<rparr>)"
    by (rule pop_num_tc1_ok) (simp add: f2 f1 lm')
  then obtain a3 where p3: "pop_num_tc1 a2 = Inr a3" and
    e3: "scope_state a3 = scope_state (a2\<lparr>m_num_tc1 := m_num_tc1 s, m_num_tc1_lim := m_num_tc1_lim s\<rparr>)"
    by blast
  note f3 = scope_stateD [OF e3]
  have "\<exists>s'. pop_retired_clauses a3 = Inr s'
           \<and> scope_state s' = scope_state (a3\<lparr>m_retired_clauses := m_retired_clauses s,
                 m_retired_clause_lim := m_retired_clause_lim s\<rparr>)"
    by (rule pop_retired_clauses_ok [where rc = rc]) (simp_all add: f3 f2 f1 lm' rcl)
  then obtain a4 where p4: "pop_retired_clauses a3 = Inr a4" and
    e4: "scope_state a4 = scope_state (a3\<lparr>m_retired_clauses := m_retired_clauses s,
                 m_retired_clause_lim := m_retired_clause_lim s\<rparr>)"
    by blast
  note f4 = scope_stateD [OF e4]
  have "\<exists>s'. pop_retired_ternary a4 = Inr s'
           \<and> scope_state s' = scope_state (a4\<lparr>m_retired_ternary := m_retired_ternary s,
                 m_retired_ternary_lim := m_retired_ternary_lim s\<rparr>)"
    by (rule pop_retired_ternary_ok [where rt = rt]) (simp_all add: f4 f3 f2 f1 lm' rtl)
  then obtain a5 where p5: "pop_retired_ternary a4 = Inr a5" and
    e5: "scope_state a5 = scope_state (a4\<lparr>m_retired_ternary := m_retired_ternary s,
                 m_retired_ternary_lim := m_retired_ternary_lim s\<rparr>)"
    by blast
  note f5 = scope_stateD [OF e5]
  have "\<exists>s'. pop_binaries a5 = Inr s'
           \<and> scope_state s' = scope_state (a5\<lparr>m_binary := m_binary s,
                 m_binary_trail := m_binary_trail s, m_binary_trail_lim := m_binary_trail_lim s\<rparr>)"
    by (rule pop_binaries_ok [where bt = bt]) (simp_all add: f5 f4 f3 f2 f1 lm' btr bin)
  then obtain a6 where p6: "pop_binaries a5 = Inr a6" and
    e6: "scope_state a6 = scope_state (a5\<lparr>m_binary := m_binary s,
                 m_binary_trail := m_binary_trail s, m_binary_trail_lim := m_binary_trail_lim s\<rparr>)"
    by blast
  note f6 = scope_stateD [OF e6]
  have "\<exists>s'. pop_qhead a6 = Inr s'
           \<and> scope_state s' = scope_state (a6\<lparr>m_qhead := m_qhead s, m_qhead_lim := m_qhead_lim s\<rparr>)"
    by (rule pop_qhead_ok) (simp add: f6 f5 f4 f3 f2 f1 lm')
  then obtain a7 where p7: "pop_qhead a6 = Inr a7" and
    e7: "scope_state a7 = scope_state (a6\<lparr>m_qhead := m_qhead s, m_qhead_lim := m_qhead_lim s\<rparr>)"
    by blast
  note f7 = scope_stateD [OF e7]
  have "pop s1 = Inr a7"
    by (simp add: pop_def rbind_def p1 p2 p3 p4 p5 p6 p7)
  moreover have "scope_state a7 = scope_state s"
    by (simp add: scope_state_def lims_def f7 f6 f5 f4 f3 f2 f1)
  ultimately show ?thesis by blast
qed

lemma scope_ext_level: "scope_ext s0 s \<Longrightarrow> scope_ext s0 (s\<lparr>m_level := x\<rparr>)"
  by (erule scope_ext_same [rotated]) (simp add: scope_fields_def lims_def)

lemma push_scope_ext:
  assumes "push lit level s = Some s1"
  shows "scope_ext (push_marks lit s) s1"
proof -
  define sp where "sp =
     s\<lparr>m_binary_trail_lim := m_binary_trail_lim s @ [length (m_binary_trail s)],
       m_trail_lim := m_trail_lim s @ [length (m_trail s)],
       m_num_tc1_lim := m_num_tc1_lim s @ [m_num_tc1 s],
       m_retired_clause_lim := m_retired_clause_lim s @ [length (m_retired_clauses s)],
       m_retired_ternary_lim := m_retired_ternary_lim s @ [length (m_retired_ternary s)],
       m_qhead_lim := m_qhead_lim s @ [m_qhead s],
       m_level := level,
       m_assumptions := m_assumptions s @ [neg lit]\<rparr>"
  have "push lit level s =
          (case propagate (assign lit sp) of None \<Rightarrow> None
           | Some s4 \<Rightarrow> Some (s4\<lparr>m_level := m_level s\<rparr>))"
    by (simp add: push_def Let_def sp_def)
  with assms obtain s4 where p: "propagate (assign lit sp) = Some s4"
    and s1: "s1 = s4\<lparr>m_level := m_level s\<rparr>"
    by (auto split: option.splits)
  have "scope_ext (push_marks lit s) sp"
    by (simp add: sp_def scope_ext_def push_marks_def lims_def extends_none)
  then have "scope_ext (push_marks lit s) (assign lit sp)" by (rule scope_ext_assign)
  with p have "scope_ext (push_marks lit s) s4" by (rule scope_ext_propagate)
  then show ?thesis unfolding s1 by (rule scope_ext_level)
qed

lemma scope_ext_fold_add_binary:
  "scope_ext s0 s \<Longrightarrow> scope_ext s0 (fold (\<lambda>(u, v). add_binary u v) ps s)"
  by (induction ps arbitrary: s) (simp_all add: split_beta scope_ext_add_binary)


text \<open>
  Claim C3. In searching mode, when \<^verbatim>\<open>push(lit, level)\<close> returns, the \<^verbatim>\<open>pop()\<close> that
  follows it succeeds and restores the trail, the binary adjacency lists, the binary
  trail, the retired clauses and ternaries, \<open>m_qhead\<close>, the tc1 counter and the six scope
  stacks to what they were before the push; and whatever binaries are added by
  \<^verbatim>\<open>add_binary\<close> between the push and the pop, the pop undoes them too.
\<close>

theorem push_pop_restores:
  "m_search_mode s = searching \<longrightarrow> push lit level s = Some s1 \<longrightarrow>
     (\<exists>s2. pop s1 = Inr s2
        \<and> m_trail s2 = m_trail s \<and> m_binary s2 = m_binary s
        \<and> m_binary_trail s2 = m_binary_trail s
        \<and> m_retired_clauses s2 = m_retired_clauses s
        \<and> m_retired_ternary s2 = m_retired_ternary s
        \<and> m_qhead s2 = m_qhead s \<and> m_num_tc1 s2 = m_num_tc1 s
        \<and> lims s2 = lims s)
     \<and> (\<forall>ps. \<exists>s2. pop (fold (\<lambda>(u, v). add_binary u v) ps s1) = Inr s2
           \<and> m_binary s2 = m_binary s \<and> m_binary_trail s2 = m_binary_trail s)"
proof (intro impI conjI allI)
  assume p: "push lit level s = Some s1"
  then have e: "scope_ext (push_marks lit s) s1" by (rule push_scope_ext)
  from pop_restores [OF e] obtain s2 where "pop s1 = Inr s2" "scope_state s2 = scope_state s"
    by blast
  then show "\<exists>s2. pop s1 = Inr s2
        \<and> m_trail s2 = m_trail s \<and> m_binary s2 = m_binary s
        \<and> m_binary_trail s2 = m_binary_trail s
        \<and> m_retired_clauses s2 = m_retired_clauses s
        \<and> m_retired_ternary s2 = m_retired_ternary s
        \<and> m_qhead s2 = m_qhead s \<and> m_num_tc1 s2 = m_num_tc1 s
        \<and> lims s2 = lims s"
    by (auto simp: scope_state_def)
  fix ps
  from e have "scope_ext (push_marks lit s) (fold (\<lambda>(u, v). add_binary u v) ps s1)"
    by (rule scope_ext_fold_add_binary)
  from pop_restores [OF this] show "\<exists>s2. pop (fold (\<lambda>(u, v). add_binary u v) ps s1) = Inr s2
           \<and> m_binary s2 = m_binary s \<and> m_binary_trail s2 = m_binary_trail s"
    by (auto simp: scope_state_def)
qed

section \<open>Verification: running the solver on concrete inputs\<close>

text \<open>
  The simplifier runs the definitions on a concrete state when it takes the argument of
  a \<open>let\<close> or of a bind to a value before it looks at the body.
\<close>

lemma let_weak_cong': "a = b \<Longrightarrow> Let a t = Let b t" by simp
lemma obind_weak_cong: "m = m' \<Longrightarrow> obind m f = obind m' f" by simp
lemma rbind_weak_cong: "m = m' \<Longrightarrow> rbind m f = rbind m' f" by simp
lemma bind_weak_cong: "m = m' \<Longrightarrow> Option.bind m f = Option.bind m' f" by simp

lemmas eval_cong = let_weak_cong' obind_weak_cong rbind_weak_cong bind_weak_cong

lemma upt_eval: "[i..<j] = (if i < j then i # [i + 1..<j] else [])"
  by (simp add: upt_rec)

lemma fun_upd_const_same: "(\<lambda>_. c)(x := c) = (\<lambda>_. c)"
  by (rule ext) simp

lemma Suc_Suc_0: "Suc (Suc 0) = 2"
  by simp

lemmas eval_state =
  new_lookahead_def cnf_solver_def example_config_def no_extension_def watch_binary_def

lemmas eval_basic =
  index_def neg_def to_literal_def null_literal_def null_bool_var_def c_fixed_truth_def
  is_fixed_at_def is_fixed_def is_undef_def is_true_def is_false_def value_def
  set_true_def set_undef_def set_conflict_def inconsistent_def scope_lvl_def
  freevars_insert_def freevars_remove_def validate_assign_def validate_binary_def
  assign_def propagated_def add_binary_def del_binary_def push_watch_def
  attach_ternary_def attach_clause_def detach_clause_def detach_ternary_def
  inc_bstamp_def set_bstamp_def is_stamped_def set_bstamps_def
  flip_prefix_def update_prefix_def add_tc1_def try_add_binary_def heur_def
  propagate_ternary_watch_def propagate_clause_watch_def propagate_ext_watch_def
  propagate_clauses_def propagate_binary_def propagate.simps
  Let_def upt_eval fun_upd_const_same Suc_Suc_0

lemmas eval_init =
  init_search_def init_def init_var_def copy_binary_def copy_clause_def copy_clauses_def
  copy_unit_def copy_externals_def is_ext_constraint_def dfs_reset_def

lemmas eval_scope =
  push_def pop_def rbind_def pop_assumption_def pop_trail_def pop_num_tc1_def resize_def
  pop_retired_clauses_def pop_retired_ternary_def pop_binaries_def pop_qhead_def
  push_lookahead1_def push_lookahead2_def pop_lookahead1_def init_wnb_def reset_wnb_def

lemmas eval_ternary = ternary_cnf_def eval_state eval_basic eval_init eval_scope

lemmas eval_select =
  select_def init_pre_selection_def h_scores_def h_score_var_def h_denominator_def h_sum_def
  l_score_def score_binary_def score_watch_def ensure_H_def init_candidates_def
  active_prefix_def is_sat_def is_unsat_def trim_pass.simps trim_loop.simps
  sift_up_loop.simps sift_up_def heap_cut.simps select_candidates.simps

lemmas eval_scc =
  upd_dfs_def get_rank_def set_rank_def get_height_def set_height_def set_parent_def
  get_parent_def get_link_def set_link_def get_min_def set_min_def get_vcomp_def set_vcomp_def
  add_arc_def has_arc_def pop_arc_def get_rating_def set_lookahead_def set_offset_def
  UINT_MAX_def init_dfs_info_def init_arcs_def init_scc_def activate_scc_def
  found_scc_loop.simps found_scc_def get_scc_loop.simps get_scc_lit_def get_scc_def
  get_child_def set_child_def height_step_def find_heights_loop.simps find_heights_def
  table_up.simps table_loop.simps construct_lookahead_table_def pre_select_def

lemmas eval_search =
  obind_def oret_def of_option_def of_result_def checkpoint_def inc_istamp_def
  get_wnb_def set_wnb_def inc_wnb_def set_level_def reset_wnb_lit_def check_autarky_def
  update_wnb_def dl_enabled_def dl_disable_def dl_no_overflow_def mix_diff_def
  do_double_def double_look_def compute_wnb_loop.simps compute_wnb_def rand_def
  select_literal_def choose_loop.simps choose_lit_def backtrack.simps search_loop.simps
  search_def model_value_def init_model_def get_model_def

lemmas eval_all = eval_state eval_basic eval_init eval_scope eval_select eval_scc eval_search

theorem push_pop_restores_witness:
  "\<exists>s s1 s2. init_search ternary_cnf = Some s
      \<and> m_search_mode s = searching
      \<and> push (Lit 0 False) c_fixed_truth s = Some s1
      \<and> m_trail s1 \<noteq> m_trail s \<and> m_binary s1 \<noteq> m_binary s
      \<and> m_retired_ternary s1 \<noteq> m_retired_ternary s
      \<and> pop s1 = Inr s2
      \<and> m_trail s2 = m_trail s \<and> m_binary s2 = m_binary s
      \<and> m_binary_trail s2 = m_binary_trail s
      \<and> m_retired_clauses s2 = m_retired_clauses s
      \<and> m_retired_ternary s2 = m_retired_ternary s
      \<and> m_qhead s2 = m_qhead s \<and> m_num_tc1 s2 = m_num_tc1 s
      \<and> lims s2 = lims s"
proof -
  define s where "s = the (init_search ternary_cnf)"
  define s1 where "s1 = the (push (Lit 0 False) c_fixed_truth s)"
  have i: "init_search ternary_cnf = Some s"
    by (simp add: s_def eval_ternary cong: eval_cong)
  have m: "m_search_mode s = searching"
    by (simp add: s_def eval_ternary cong: eval_cong)
  have p: "push (Lit 0 False) c_fixed_truth s = Some s1"
    by (simp add: s1_def s_def eval_ternary cong: eval_cong)
  have d1: "m_trail s1 \<noteq> m_trail s"
    by (simp add: s1_def s_def eval_ternary cong: eval_cong)
  have d2: "m_binary s1 3 \<noteq> m_binary s 3"
    by (simp add: s1_def s_def eval_ternary cong: eval_cong)
  then have d2': "m_binary s1 \<noteq> m_binary s" by auto
  have d3: "m_retired_ternary s1 \<noteq> m_retired_ternary s"
    by (simp add: s1_def s_def eval_ternary cong: eval_cong)
  from push_pop_restores [of s "Lit 0 False" c_fixed_truth s1] m p
  obtain s2 where "pop s1 = Inr s2" "m_trail s2 = m_trail s" "m_binary s2 = m_binary s"
      "m_binary_trail s2 = m_binary_trail s" "m_retired_clauses s2 = m_retired_clauses s"
      "m_retired_ternary s2 = m_retired_ternary s" "m_qhead s2 = m_qhead s"
      "m_num_tc1 s2 = m_num_tc1 s" "lims s2 = lims s"
    by blast
  with i m p d1 d2' d3 show ?thesis by blast
qed

section \<open>Verification: initialization and probes\<close>

text \<open>
  \<^verbatim>\<open>init\<close> and the probes only add binaries through \<^verbatim>\<open>add_binary\<close>, so the adjacency
  lists of every state the search reaches from a new solver object are symmetric.
\<close>



lemma scope_ext_mode: "scope_ext s0 s \<Longrightarrow> scope_ext s0 (s\<lparr>m_search_mode := x\<rparr>)"
  by (erule scope_ext_same [rotated]) (simp add: scope_fields_def lims_def)

lemma scope_ext_inconsistent: "scope_ext s0 s \<Longrightarrow> scope_ext s0 (s\<lparr>m_inconsistent := x\<rparr>)"
  by (erule scope_ext_same [rotated]) (simp add: scope_fields_def lims_def)

lemma scope_ext_push_lookahead1:
  assumes "push_lookahead1 lit level s = Some s1" "scope_ext s0 s"
  shows "scope_ext s0 s1"
proof -
  from assms(1) obtain s3 where
    p: "propagate (assign lit (s\<lparr>m_search_mode := lookahead1, m_level := level\<rparr>)) = Some s3"
    and s1: "s1 = s3\<lparr>m_level := m_level s\<rparr>"
    by (auto simp: push_lookahead1_def Let_def split: option.splits)
  have "scope_ext s0 (assign lit (s\<lparr>m_search_mode := lookahead1, m_level := level\<rparr>))"
    using assms(2) by (intro scope_ext_assign scope_ext_level scope_ext_mode)
  with p have "scope_ext s0 s3" by (rule scope_ext_propagate)
  then show ?thesis unfolding s1 by (rule scope_ext_level)
qed

lemma scope_ext_push_lookahead2:
  assumes "push_lookahead2 lit level s = Some (unsat, s1)" "scope_ext s0 s"
  shows "scope_ext s0 s1"
proof -
  from assms(1) obtain s3 where
    p: "propagate (assign lit (s\<lparr>m_level := level, m_search_mode := lookahead2\<rparr>)) = Some s3"
    and s1: "s1 = s3\<lparr>m_search_mode := lookahead1, m_inconsistent := False, m_level := m_level s\<rparr>"
    by (auto simp: push_lookahead2_def Let_def split: option.splits)
  have "scope_ext s0 (assign lit (s\<lparr>m_level := level, m_search_mode := lookahead2\<rparr>))"
    using assms(2) by (intro scope_ext_assign scope_ext_level scope_ext_mode)
  with p have "scope_ext s0 s3" by (rule scope_ext_propagate)
  then show ?thesis unfolding s1
    by (intro scope_ext_level scope_ext_mode scope_ext_inconsistent)
qed

lemma scope_ext_fold_add_binary_lit:
  "scope_ext s0 s \<Longrightarrow> scope_ext s0 (fold (\<lambda>w. add_binary u w) ws s)"
  by (induction ws arbitrary: s) (simp_all add: scope_ext_add_binary)

lemma scope_ext_wstack: "scope_ext s0 s \<Longrightarrow> scope_ext s0 (s\<lparr>m_wstack := x\<rparr>)"
  by (erule scope_ext_same [rotated]) (simp add: scope_fields_def lims_def)

lemma scope_ext_pop_lookahead1: "scope_ext s0 s \<Longrightarrow> scope_ext s0 (pop_lookahead1 lit s)"
  unfolding pop_lookahead1_def Let_def
  by (auto intro!: scope_ext_wstack scope_ext_fold_add_binary_lit scope_ext_mode
      scope_ext_inconsistent)

lemma binary_inv_scope_ext: "binary_inv s \<Longrightarrow> scope_ext s s' \<Longrightarrow> binary_inv s'"
  unfolding binary_inv_def scope_ext_def
  by (auto intro: binary_extends_trans)

text \<open>\<^verbatim>\<open>init\<close> on a new solver object builds the adjacency lists by \<^verbatim>\<open>add_binary\<close> only.\<close>

lemma init_var_binary:
  "m_binary s = (\<lambda>_. []) \<Longrightarrow> m_binary (init_var v s) = (\<lambda>_. [])"
  "m_binary_trail (init_var v s) = m_binary_trail s"
  by (auto simp: init_var_def Let_def freevars_insert_def)

lemma fold_init_var_binary:
  "m_binary s = (\<lambda>_. []) \<Longrightarrow> m_binary_trail s = [] \<Longrightarrow>
   m_binary (fold init_var vs s) = (\<lambda>_. []) \<and> m_binary_trail (fold init_var vs s) = []"
  by (induction vs arbitrary: s) (simp_all add: init_var_binary)

lemma scope_ext_copy_binary: "scope_ext s0 s \<Longrightarrow> scope_ext s0 (copy_binary i w s)"
  by (cases w) (simp_all add: copy_binary_def scope_ext_add_binary)

lemma scope_ext_fold_copy_binary:
  "scope_ext s0 s \<Longrightarrow> scope_ext s0 (fold (copy_binary i) ws s)"
  by (induction ws arbitrary: s) (simp_all add: scope_ext_copy_binary)

lemma scope_ext_fold_copy_binaries:
  "scope_ext s0 s \<Longrightarrow>
   scope_ext s0 (fold (\<lambda>l_idx t. fold (copy_binary l_idx) (s_watches (m_s t) ! l_idx) t) is s)"
  by (induction "is" arbitrary: s) (simp_all add: scope_ext_fold_copy_binary)

lemma scope_fields_full_watches:
  "scope_fields (fold (\<lambda>l t. t\<lparr>m_full_watches := f l t\<rparr>) c s) = scope_fields s"
  by (induction c arbitrary: s) (simp_all add: scope_fields_def lims_def)

lemma scope_fields_attach_clause: "scope_fields (attach_clause off s) = scope_fields s"
  by (simp add: attach_clause_def Let_def attach_ternary_def push_watch_def scope_fields_def
      lims_def)

lemma scope_fields_drat_out: "scope_fields (s\<lparr>m_drat_out := x\<rparr>) = scope_fields s"
  by (simp add: scope_fields_def lims_def)

lemma scope_fields_allocate:
  "scope_fields (s\<lparr>m_cls_allocator := x, m_clauses := y\<rparr>) = scope_fields s"
  by (simp add: scope_fields_def lims_def)

lemma scope_fields_copy_clause: "scope_fields (copy_clause cr s) = scope_fields s"
proof (cases cr)
  case (Pair c removed)
  show ?thesis
    unfolding Pair copy_clause_def Let_def prod.case
    by (simp add: scope_fields_drat_out scope_fields_full_watches scope_fields_attach_clause
        scope_fields_allocate)
qed

lemma scope_ext_copy_clause: "scope_ext s0 s \<Longrightarrow> scope_ext s0 (copy_clause cr s)"
  by (rule scope_ext_same [OF scope_fields_copy_clause])

lemma scope_ext_copy_clauses: "scope_ext s0 s \<Longrightarrow> scope_ext s0 (copy_clauses cs s)"
  unfolding copy_clauses_def
  by (induction cs arbitrary: s) (simp_all add: scope_ext_copy_clause)

lemma scope_ext_drat_out: "scope_ext s0 s \<Longrightarrow> scope_ext s0 (s\<lparr>m_drat_out := x\<rparr>)"
  by (erule scope_ext_same [rotated]) (simp add: scope_fields_def lims_def)

lemma scope_ext_fold_copy_unit: "scope_ext s0 s \<Longrightarrow> scope_ext s0 (fold copy_unit ls s)"
  by (induction ls arbitrary: s)
     (simp_all add: copy_unit_def scope_ext_assign scope_ext_drat_out)

lemma scope_ext_fold_copy_externals:
  "scope_ext s0 s \<Longrightarrow> scope_ext s0 (fold copy_externals is s)"
  by (induction "is" arbitrary: s) (simp_all add: copy_externals_def scope_ext_watches)

lemma init_binary_inv:
  assumes "init s = Some s'" "m_binary s = (\<lambda>_. [])" "m_binary_trail s = []"
  shows "binary_inv s'"
proof -
  define s1 where "s1 = s\<lparr>m_delta_trigger := real (m_num_vars s div 10),
                  m_config := (m_config s)\<lparr>m_dl_success := 0.8\<rparr>,
                  m_inconsistent := False, m_qhead := 0, m_bstamp_id := 0\<rparr>"
  define s2 where "s2 = fold init_var [0..<m_num_vars s1] s1"
  define s3 where "s3 = fold (\<lambda>l_idx t. fold (copy_binary l_idx) (s_watches (m_s t) ! l_idx) t)
                 [0..<length (s_watches (m_s s2))] s2"
  define s4 where "s4 = copy_clauses (s_learned (m_s s3)) (copy_clauses (s_clauses (m_s s3)) s3)"
  define s5 where "s5 = fold copy_unit (take (s_init_trail_size (m_s s4)) (s_trail (m_s s4))) s4"
  define s6 where "s6 = fold copy_externals [0..<2 * m_num_vars s5] s5"
  from assms(1) obtain s7 where p: "propagate s6 = Some s7"
    and s': "s' = s7\<lparr>m_qhead := length (m_trail s7)\<rparr>"
    unfolding init_def Let_def s1_def [symmetric] s2_def [symmetric] s3_def [symmetric]
      s4_def [symmetric] s5_def [symmetric] s6_def [symmetric]
    by (auto split: option.splits)
  have "m_binary s1 = (\<lambda>_. [])" "m_binary_trail s1 = []"
    using assms(2,3) by (simp_all add: s1_def)
  then have "binary_inv s2"
    using fold_init_var_binary [of s1 "[0..<m_num_vars s1]"]
    by (simp add: s2_def binary_inv_def extends_none)
  moreover have "scope_ext s2 s3" unfolding s3_def
    by (intro scope_ext_fold_copy_binaries scope_ext_refl)
  then have "scope_ext s2 s4" unfolding s4_def by (intro scope_ext_copy_clauses)
  then have "scope_ext s2 s5" unfolding s5_def by (intro scope_ext_fold_copy_unit)
  then have "scope_ext s2 s6" unfolding s6_def by (intro scope_ext_fold_copy_externals)
  with p have "scope_ext s2 s7" by (rule scope_ext_propagate)
  then have "scope_ext s2 s'" unfolding s' by (rule scope_ext_qhead)
  ultimately show ?thesis by (rule binary_inv_scope_ext)
qed

lemma init_search_binary_inv:
  "init_search (new_lookahead sol cfg n) = Some s \<Longrightarrow> binary_inv s"
proof -
  assume a: "init_search (new_lookahead sol cfg n) = Some s"
  then obtain s1 where i: "init ((new_lookahead sol cfg n)\<lparr>m_search_mode := searching,
      m_level := c_fixed_truth\<rparr>) = Some s1" and s: "s = s1\<lparr>m_level := m_level (new_lookahead sol cfg n)\<rparr>"
    by (auto simp: init_search_def split: option.splits)
  from i have "binary_inv s1"
    by (rule init_binary_inv) (simp_all add: new_lookahead_def)
  then show ?thesis by (simp add: s binary_inv_def)
qed



section \<open>Verification: windfalls\<close>

lemma binary_mono_add_binary:
  "set (m_binary s i) \<subseteq> set (m_binary (add_binary u v s) i)"
  by (auto simp: m_binary_add_binary record_binary_def Let_def)

lemma add_binary_records:
  "neg u \<noteq> v \<Longrightarrow> v \<in> set (m_binary (add_binary u v s) (index (neg u)))"
proof (cases "add_binary_skips u v s")
  case True
  assume "neg u \<noteq> v"
  with True have "m_binary s (index (neg u)) \<noteq> []" "last (m_binary s (index (neg u))) = v"
    by (simp_all add: add_binary_skips_def)
  then have "v \<in> set (m_binary s (index (neg u)))"
    using last_in_set by blast
  with True show ?thesis by (simp add: m_binary_add_binary)
next
  case False
  then show ?thesis by (simp add: m_binary_add_binary record_binary_def Let_def)
qed

lemma fold_add_binary_mono:
  "set (m_binary s i) \<subseteq> set (m_binary (fold (\<lambda>w. add_binary u w) ws s) i)"
proof (induction ws arbitrary: s)
  case Nil
  then show ?case by simp
next
  case (Cons w ws)
  have "set (m_binary s i) \<subseteq> set (m_binary (add_binary u w s) i)"
    by (rule binary_mono_add_binary)
  also have "\<dots> \<subseteq> set (m_binary (fold (\<lambda>w. add_binary u w) ws (add_binary u w s)) i)"
    by (rule Cons.IH)
  finally show ?case by simp
qed

lemma fold_add_binary_records:
  "w \<in> set ws \<Longrightarrow> neg u \<noteq> w \<Longrightarrow>
   w \<in> set (m_binary (fold (\<lambda>w. add_binary u w) ws s) (index (neg u)))"
proof (induction ws arbitrary: s)
  case Nil
  then show ?case by simp
next
  case (Cons x ws)
  show ?case
  proof (cases "x = w")
    case True
    have "w \<in> set (m_binary (add_binary u w s) (index (neg u)))"
      using Cons.prems(2) by (rule add_binary_records)
    with fold_add_binary_mono [of "add_binary u w s" "index (neg u)" u ws] True
    show ?thesis by auto
  next
    case False
    with Cons show ?thesis by simp
  qed
qed

lemma binary_inv_fold_add_binary:
  "binary_inv s \<Longrightarrow> binary_inv (fold (\<lambda>w. add_binary u w) ws s)"
  by (induction ws arbitrary: s) (simp_all add: binary_inv_add_binary)

lemma fold_add_binary_other_fields:
  "m_wstack (fold (\<lambda>w. add_binary u w) ws s) = m_wstack s
   \<and> m_search_mode (fold (\<lambda>w. add_binary u w) ws s) = m_search_mode s
   \<and> m_inconsistent (fold (\<lambda>w. add_binary u w) ws s) = m_inconsistent s"
  by (induction ws arbitrary: s)
     (simp_all add: add_binary_def validate_binary_def Let_def)

lemma pop_lookahead1_binary:
  "m_binary (pop_lookahead1 lit s) =
     (if inconsistent s then m_binary s
      else m_binary (fold (\<lambda>w. add_binary (neg lit) w) (m_wstack s)
             (s\<lparr>m_inconsistent := False, m_search_mode := searching\<rparr>)))"
  "m_binary_trail (pop_lookahead1 lit s) =
     (if inconsistent s then m_binary_trail s
      else m_binary_trail (fold (\<lambda>w. add_binary (neg lit) w) (m_wstack s)
             (s\<lparr>m_inconsistent := False, m_search_mode := searching\<rparr>)))"
  by (simp_all add: pop_lookahead1_def Let_def)

text \<open>
  Claim C4. \<^verbatim>\<open>propagated\<close> puts the literal on the wstack in lookahead1 mode, and only
  then. \<^verbatim>\<open>pop_lookahead1(lit)\<close> always leaves the wstack empty and the mode searching.
  After a probe without conflict it has called \<^verbatim>\<open>add_binary(\<not>lit, w)\<close> for every \<open>w\<close> of
  the wstack, so that every such \<open>w\<close> other than \<open>lit\<close> itself, for which the binary
  would be a tautology, is listed for \<open>lit\<close>, and \<open>\<not>lit\<close> is listed for \<open>\<not>w\<close> when the
  adjacency lists were built by \<^verbatim>\<open>add_binary\<close>; the binaries are on the binary trail of
  the search. After a probe that ended in conflict the adjacency lists and the binary
  trail are as before.
\<close>

theorem pop_lookahead1_windfalls:
  "m_wstack (pop_lookahead1 lit s) = []
   \<and> m_search_mode (pop_lookahead1 lit s) = searching
   \<and> (\<not> inconsistent s \<longrightarrow>
        m_binary (pop_lookahead1 lit s)
          = m_binary (fold (\<lambda>w. add_binary (neg lit) w) (m_wstack s)
              (s\<lparr>m_inconsistent := False, m_search_mode := searching\<rparr>))
        \<and> (\<forall>w \<in> set (m_wstack s). w \<noteq> lit \<longrightarrow>
              w \<in> set (m_binary (pop_lookahead1 lit s) (index lit))))
   \<and> (\<not> inconsistent s \<and> binary_inv s \<longrightarrow>
        binary_inv (pop_lookahead1 lit s)
        \<and> (\<forall>w \<in> set (m_wstack s). w \<noteq> lit \<longrightarrow>
              neg lit \<in> set (m_binary (pop_lookahead1 lit s) (index (neg w)))))
   \<and> (inconsistent s \<longrightarrow>
        m_binary (pop_lookahead1 lit s) = m_binary s
        \<and> m_binary_trail (pop_lookahead1 lit s) = m_binary_trail s)
   \<and> (m_search_mode s = lookahead1 \<longrightarrow> m_wstack (propagated l s) = m_wstack s @ [l])
   \<and> (m_search_mode s \<noteq> lookahead1 \<longrightarrow> m_wstack (propagated l s) = m_wstack s)"
proof -
  define s0 where "s0 = s\<lparr>m_inconsistent := False, m_search_mode := searching\<rparr>"
  define s' where "s' = fold (\<lambda>w. add_binary (neg lit) w) (m_wstack s) s0"
  have bin: "\<not> inconsistent s \<Longrightarrow> m_binary (pop_lookahead1 lit s) = m_binary s'"
    and btr: "\<not> inconsistent s \<Longrightarrow> m_binary_trail (pop_lookahead1 lit s) = m_binary_trail s'"
    by (simp_all add: pop_lookahead1_binary s'_def s0_def)
  have rec: "w \<in> set (m_binary s' (index lit))" if "w \<in> set (m_wstack s)" "w \<noteq> lit" for w
    using fold_add_binary_records [of w "m_wstack s" "neg lit" s0] that
    by (auto simp: s'_def)
  have inv: "binary_inv s'" if "binary_inv s"
  proof -
    from that have "binary_inv s0" by (simp add: binary_inv_def s0_def)
    then show ?thesis unfolding s'_def by (rule binary_inv_fold_add_binary)
  qed
  have sym: "neg lit \<in> set (m_binary s' (index (neg w)))"
    if "binary_inv s" "w \<in> set (m_wstack s)" "w \<noteq> lit" for w
  proof -
    from inv [OF that(1)] have "binary_symmetric (m_binary s')"
      using binary_extends_symmetric [OF _ binary_symmetric_empty] by (simp add: binary_inv_def)
    then have "(w \<in> set (m_binary s' (index (neg (neg lit)))))
                = (neg lit \<in> set (m_binary s' (index (neg w))))"
      unfolding binary_symmetric_def by blast
    with rec [OF that(2,3)] show ?thesis by simp
  qed
  have am: "m_search_mode (assign l s) = m_search_mode s" "m_wstack (assign l s) = m_wstack s"
    by (simp_all add: assign_def Let_def set_true_def validate_assign_def freevars_remove_def
        set_conflict_def)
  show ?thesis
  proof (intro conjI impI ballI)
    show "m_wstack (pop_lookahead1 lit s) = []" by (simp add: pop_lookahead1_def Let_def)
    show "m_search_mode (pop_lookahead1 lit s) = searching"
      using fold_add_binary_other_fields [of "neg lit" "m_wstack s" s0]
      by (simp add: pop_lookahead1_def Let_def s0_def)
    show "m_binary (pop_lookahead1 lit s) = m_binary (fold (\<lambda>w. add_binary (neg lit) w) (m_wstack s)
              (s\<lparr>m_inconsistent := False, m_search_mode := searching\<rparr>))"
      if "\<not> inconsistent s" using bin [OF that] by (simp add: s'_def s0_def)
    show "w \<in> set (m_binary (pop_lookahead1 lit s) (index lit))"
      if "\<not> inconsistent s" "w \<in> set (m_wstack s)" "w \<noteq> lit" for w
      using bin [OF that(1)] rec [OF that(2,3)] by simp
    show "binary_inv (pop_lookahead1 lit s)" if "\<not> inconsistent s \<and> binary_inv s"
      using that bin btr inv by (simp add: binary_inv_def)
    show "neg lit \<in> set (m_binary (pop_lookahead1 lit s) (index (neg w)))"
      if "\<not> inconsistent s \<and> binary_inv s" "w \<in> set (m_wstack s)" "w \<noteq> lit" for w
      using that bin sym by simp
    show "m_binary (pop_lookahead1 lit s) = m_binary s" if "inconsistent s"
      using that by (simp add: pop_lookahead1_binary)
    show "m_binary_trail (pop_lookahead1 lit s) = m_binary_trail s" if "inconsistent s"
      using that by (simp add: pop_lookahead1_binary)
    show "m_wstack (propagated l s) = m_wstack s @ [l]" if "m_search_mode s = lookahead1"
      using that am by (simp add: propagated_def Let_def)
    show "m_wstack (propagated l s) = m_wstack s" if "m_search_mode s \<noteq> lookahead1"
      using that am by (cases "m_search_mode s") (simp_all add: propagated_def Let_def)
  qed
qed


lemmas eval_windfall = windfall_cnf_def eval_state eval_basic eval_init eval_scope

theorem pop_lookahead1_windfalls_witness:
  "\<exists>s s1 s2. init_search windfall_cnf = Some s
      \<and> push_lookahead1 (Lit 0 False) 2 (init_wnb (s\<lparr>m_level := c_fixed_truth\<rparr>)) = Some s1
      \<and> \<not> inconsistent s1 \<and> binary_inv s1 \<and> m_wstack s1 = [Lit 2 False]
      \<and> Lit 2 False \<notin> set (m_binary s1 (index (Lit 0 False)))
      \<and> m_wstack (pop_lookahead1 (Lit 0 False) s1) = []
      \<and> Lit 2 False \<in> set (m_binary (pop_lookahead1 (Lit 0 False) s1) (index (Lit 0 False)))
      \<and> Lit 0 True \<in> set (m_binary (pop_lookahead1 (Lit 0 False) s1) (index (Lit 2 True)))
      \<and> push_lookahead1 (Lit 3 False) 2 (init_wnb (s\<lparr>m_level := c_fixed_truth\<rparr>)) = Some s2
      \<and> inconsistent s2 \<and> m_wstack s2 = [Lit 5 False]
      \<and> m_wstack (pop_lookahead1 (Lit 3 False) s2) = []
      \<and> m_binary (pop_lookahead1 (Lit 3 False) s2) = m_binary s2
      \<and> m_search_mode s1 = lookahead1
      \<and> m_wstack (propagated (Lit 4 False) s1) = [Lit 2 False, Lit 4 False]
      \<and> m_search_mode s \<noteq> lookahead1
      \<and> m_wstack (propagated (Lit 4 False) s) = m_wstack s"
proof -
  define s where "s = the (init_search windfall_cnf)"
  define s0 where "s0 = init_wnb (s\<lparr>m_level := c_fixed_truth\<rparr>)"
  define s1 where "s1 = the (push_lookahead1 (Lit 0 False) 2 s0)"
  define s2 where "s2 = the (push_lookahead1 (Lit 3 False) 2 s0)"
  have i: "init_search windfall_cnf = Some s"
    by (simp add: s_def eval_windfall cong: eval_cong)
  have p1: "push_lookahead1 (Lit 0 False) 2 s0 = Some s1"
    by (simp add: s1_def s0_def s_def eval_windfall cong: eval_cong)
  have p2: "push_lookahead1 (Lit 3 False) 2 s0 = Some s2"
    by (simp add: s2_def s0_def s_def eval_windfall cong: eval_cong)
  have c1: "\<not> inconsistent s1"
    by (simp add: s1_def s0_def s_def eval_windfall cong: eval_cong)
  have w1: "m_wstack s1 = [Lit 2 False]"
    by (simp add: s1_def s0_def s_def eval_windfall cong: eval_cong)
  have b1: "Lit 2 False \<notin> set (m_binary s1 (index (Lit 0 False)))"
    by (simp add: s1_def s0_def s_def eval_windfall cong: eval_cong)
  have m1: "m_search_mode s1 = lookahead1"
    by (simp add: s1_def s0_def s_def eval_windfall cong: eval_cong)
  have c2: "inconsistent s2"
    by (simp add: s2_def s0_def s_def eval_windfall cong: eval_cong)
  have w2: "m_wstack s2 = [Lit 5 False]"
    by (simp add: s2_def s0_def s_def eval_windfall cong: eval_cong)
  have m0: "m_search_mode s \<noteq> lookahead1"
    by (simp add: s_def eval_windfall cong: eval_cong)
  have "binary_inv s"
    using i unfolding windfall_cnf_def by (rule init_search_binary_inv)
  then have "binary_inv s0" by (simp add: binary_inv_def s0_def init_wnb_def)
  then have inv: "binary_inv s1"
    using scope_ext_push_lookahead1 [OF p1 scope_ext_refl] by (rule binary_inv_scope_ext)
  have in1: "Lit 2 False \<in> set (m_wstack s1)" "Lit 2 False \<noteq> Lit 0 False"
    by (simp_all add: w1)
  from pop_lookahead1_windfalls [of "Lit 0 False" s1 "Lit 4 False"] c1 inv in1 m1
  have r1: "m_wstack (pop_lookahead1 (Lit 0 False) s1) = []"
    "Lit 2 False \<in> set (m_binary (pop_lookahead1 (Lit 0 False) s1) (index (Lit 0 False)))"
    "neg (Lit 0 False)
       \<in> set (m_binary (pop_lookahead1 (Lit 0 False) s1) (index (neg (Lit 2 False))))"
    "m_wstack (propagated (Lit 4 False) s1) = m_wstack s1 @ [Lit 4 False]"
    by blast+
  from pop_lookahead1_windfalls [of "Lit 3 False" s2 "Lit 4 False"] c2
  have r2: "m_wstack (pop_lookahead1 (Lit 3 False) s2) = []"
    "m_binary (pop_lookahead1 (Lit 3 False) s2) = m_binary s2"
    by blast+
  from pop_lookahead1_windfalls [of "Lit 0 False" s "Lit 4 False"] m0
  have r3: "m_wstack (propagated (Lit 4 False) s) = m_wstack s"
    by blast
  from r1(3) have r1': "Lit 0 True
       \<in> set (m_binary (pop_lookahead1 (Lit 0 False) s1) (index (Lit 2 True)))"
    by (simp add: neg_def)
  from r1(4) have r1'': "m_wstack (propagated (Lit 4 False) s1) = [Lit 2 False, Lit 4 False]"
    by (simp add: w1)
  show ?thesis
    using i p1 p2 c1 inv w1 b1 r1(1,2) r1' r1'' r2 c2 w2 m1 m0 r3
    unfolding s0_def by blast
qed

section \<open>Verification: pop without push\<close>

text \<open>
  \<^verbatim>\<open>pop\<close> has no statement that raises: when it does not return, it is at a vector
  operation out of range.
\<close>

lemma del_binary_error: "del_binary idx s = Inl (e, t) \<Longrightarrow> e = Vector_bounds"
  by (auto simp: del_binary_def Let_def split: if_splits)

lemma del_binaries_error: "del_binaries idxs s = Inl (e, t) \<Longrightarrow> e = Vector_bounds"
proof (induction idxs arbitrary: s)
  case Nil
  then show ?case by simp
next
  case (Cons idx idxs)
  show ?case
  proof (cases "del_binary idx s")
    case (Inl x)
    with Cons.prems del_binary_error [of idx s e t] show ?thesis by (simp add: rbind_def)
  next
    case (Inr s1)
    with Cons.prems have "del_binaries idxs s1 = Inl (e, t)" by (simp add: rbind_def)
    then show ?thesis by (rule Cons.IH)
  qed
qed

lemma pop_block_errors:
  "pop_assumption s = Inl (e, t) \<Longrightarrow> e = Vector_bounds"
  "pop_trail s = Inl (e, t) \<Longrightarrow> e = Vector_bounds"
  "pop_num_tc1 s = Inl (e, t) \<Longrightarrow> e = Vector_bounds"
  "pop_retired_clauses s = Inl (e, t) \<Longrightarrow> e = Vector_bounds"
  "pop_retired_ternary s = Inl (e, t) \<Longrightarrow> e = Vector_bounds"
  "pop_qhead s = Inl (e, t) \<Longrightarrow> e = Vector_bounds"
  by (auto simp: pop_assumption_def pop_trail_def pop_num_tc1_def pop_retired_clauses_def
      pop_retired_ternary_def pop_qhead_def Let_def split: if_splits)

lemma pop_binaries_error: "pop_binaries s = Inl (e, t) \<Longrightarrow> e = Vector_bounds"
  by (auto simp: pop_binaries_def Let_def rbind_def dest: del_binaries_error
      split: if_splits sum.splits)

lemma rbind_error:
  assumes "rbind r f = Inl (e, t)"
    and "r = Inl (e, t) \<Longrightarrow> P"
    and "\<And>s1. r = Inr s1 \<Longrightarrow> f s1 = Inl (e, t) \<Longrightarrow> P"
  shows P
  using assms by (cases r) (auto simp: rbind_def)

lemma pop_error: "pop s = Inl (e, t) \<Longrightarrow> e = Vector_bounds"
  unfolding pop_def
  by (elim rbind_error) (auto dest: pop_block_errors pop_binaries_error)

lemma pop_empty_assumptions:
  "m_assumptions s = [] \<Longrightarrow>
   pop s = Inl (Vector_bounds,
             s\<lparr>m_verbose := m_verbose s @ [Empty_pop], m_inconsistent := False\<rparr>)"
  by (simp add: pop_def pop_assumption_def rbind_def)

lemma pop_empty_trail_lim:
  "m_assumptions s \<noteq> [] \<Longrightarrow> m_trail_lim s = [] \<Longrightarrow>
   pop s = Inl (Vector_bounds,
             s\<lparr>m_assumptions := butlast (m_assumptions s), m_inconsistent := False\<rparr>)"
  by (simp add: pop_def pop_assumption_def pop_trail_def rbind_def)




section \<open>Verification: autarky\<close>

text \<open>
  Claim C1. \<^verbatim>\<open>check_autarky\<close> returns false on every literal, level and state, since its
  body starts with \<^verbatim>\<open>return false\<close>. So \<^verbatim>\<open>update_wnb\<close> on a probe with no new binaries
  leaves the state as it is: the probed literal is not assigned.
\<close>

theorem update_wnb_never_autarky:
  "check_autarky l level s = False
   \<and> update_wnb l level (s\<lparr>m_weighted_new_binaries := 0\<rparr>)
       = Some (Inr (s\<lparr>m_weighted_new_binaries := 0\<rparr>))"
  by (simp add: update_wnb_def check_autarky_def)

section \<open>Verification: the search on an unsatisfiable set of binary clauses\<close>

text \<open>
  Claim C9. On the four binary clauses over two variables, whatever the random numbers,
  \<^verbatim>\<open>init_search\<close> and \<^verbatim>\<open>search\<close> return, and \<^verbatim>\<open>search\<close> answers \<open>l_false\<close>: the first
  pre-selection finds a literal and its complement in one component of the implication
  graph, and there is no decision to backtrack to.
\<close>

theorem search_pigeonhole_unsat:
  "\<exists>s s'. init_search (pigeonhole_cnf\<lparr>m_rand := rs\<rparr>) = Some s
      \<and> search s = Some (Inr (l_false, s'))"
proof -
  define s where "s = the (init_search (pigeonhole_cnf\<lparr>m_rand := rs\<rparr>))"
  have i: "init_search (pigeonhole_cnf\<lparr>m_rand := rs\<rparr>) = Some s"
    by (simp add: s_def pigeonhole_cnf_def eval_all cong: eval_cong)
  have "case search s of None \<Rightarrow> False | Some (Inl e) \<Rightarrow> False
        | Some (Inr (r, s')) \<Rightarrow> r = l_false"
    by (simp add: s_def pigeonhole_cnf_def eval_all cong: eval_cong)
  then have "\<exists>s'. search s = Some (Inr (l_false, s'))"
    by (auto split: option.splits sum.splits)
  with i show ?thesis by blast
qed

section \<open>Verification: model extraction\<close>

lemma model_value_eq:
  "model_value s v = (if is_true s (Lit v False) then l_true else l_false)"
  by (simp add: model_value_def Let_def)

lemma init_model_nth:
  "v < m_num_vars s \<Longrightarrow>
   m_model (init_model s) ! v = (if is_true s (Lit v False) then l_true else l_false)"
  by (simp add: init_model_def model_value_eq)

lemma trivial_sat_run:
  "\<exists>t t'. init_search trivial_sat_cnf = Some t \<and> is_undef t (Lit 0 False)
      \<and> fst (get_model t) = [l_false, l_false]
      \<and> search t = Some (Inr (l_true, t')) \<and> m_num_vars t' = 2
      \<and> is_true t' (Lit 0 False) \<and> is_false t' (Lit 1 False)
      \<and> m_trail t' = [Lit 1 True, Lit 0 False]
      \<and> fst (get_model t') = [l_true, l_false]"
proof -
  define t where "t = the (init_search trivial_sat_cnf)"
  define t' where "t' = snd (projr (the (search t)))"
  have i: "init_search trivial_sat_cnf = Some t"
    by (simp add: t_def trivial_sat_cnf_def eval_all cong: eval_cong)
  have u: "is_undef t (Lit 0 False)" "fst (get_model t) = [l_false, l_false]"
    by (simp_all add: t_def trivial_sat_cnf_def eval_all cong: eval_cong)
  have "case search t of None \<Rightarrow> False | Some (Inl e) \<Rightarrow> False
        | Some (Inr (r, s')) \<Rightarrow> r = l_true"
    by (simp add: t_def trivial_sat_cnf_def eval_all cong: eval_cong)
  then have r: "search t = Some (Inr (l_true, t'))"
    by (auto simp: t'_def split: option.splits sum.splits)
  have m: "m_num_vars t' = 2" "is_true t' (Lit 0 False)" "is_false t' (Lit 1 False)"
    "m_trail t' = [Lit 1 True, Lit 0 False]" "fst (get_model t') = [l_true, l_false]"
    by (simp_all add: t'_def t_def trivial_sat_cnf_def eval_all cong: eval_cong)
  from i u r m show ?thesis by blast
qed

theorem model_of_unassigned_and_decided:
  "\<exists>t t'. init_search trivial_sat_cnf = Some t
      \<and> is_undef t (Lit 0 False) \<and> fst (get_model t) ! 0 = l_false
      \<and> search t = Some (Inr (l_true, t'))
      \<and> fst (get_model t') ! 1 = l_false"
  using trivial_sat_run by fastforce

text \<open>
  Claim C2. The model has one value per variable: \<open>l_true\<close> for a variable whose positive
  literal is true and \<open>l_false\<close> for one whose positive literal is false. On the single
  clause \<open>x\<^sub>0 \<or> x\<^sub>1\<close> the search answers \<open>l_true\<close> with the decision \<open>\<not>x\<^sub>1\<close> and the
  propagated \<open>x\<^sub>0\<close> on the trail, and the model is \<open>x\<^sub>0\<close> true, \<open>x\<^sub>1\<close> false.
\<close>

theorem init_model_known_values:
  "length (m_model (init_model s)) = m_num_vars s
   \<and> (\<forall>v < m_num_vars s.
         (is_true s (Lit v False) \<longrightarrow> m_model (init_model s) ! v = l_true)
         \<and> (is_false s (Lit v False) \<longrightarrow> m_model (init_model s) ! v = l_false))
   \<and> (m_model s = [] \<longrightarrow> fst (get_model s) = m_model (init_model s))
   \<and> (\<exists>t t'. init_search trivial_sat_cnf = Some t \<and> search t = Some (Inr (l_true, t'))
         \<and> m_trail t' = [Lit 1 True, Lit 0 False]
         \<and> fst (get_model t') = [l_true, l_false])"
proof -
  have "is_false s (Lit v False) \<Longrightarrow> \<not> is_true s (Lit v False)" for v
    by (auto simp: is_true_def is_false_def)
  moreover have "\<exists>t t'. init_search trivial_sat_cnf = Some t
         \<and> search t = Some (Inr (l_true, t'))
         \<and> m_trail t' = [Lit 1 True, Lit 0 False]
         \<and> fst (get_model t') = [l_true, l_false]"
    using trivial_sat_run by blast
  ultimately show ?thesis
    by (simp add: init_model_nth get_model_def Let_def) (simp add: init_model_def)
qed

theorem init_model_known_values_witness:
  "\<exists>t t'. init_search trivial_sat_cnf = Some t \<and> search t = Some (Inr (l_true, t'))
      \<and> m_num_vars t' = 2
      \<and> is_true t' (Lit 0 False) \<and> m_model (init_model t') ! 0 = l_true
      \<and> is_false t' (Lit 1 False) \<and> m_model (init_model t') ! 1 = l_false"
proof -
  from trivial_sat_run obtain t t' where
    r: "init_search trivial_sat_cnf = Some t" "search t = Some (Inr (l_true, t'))"
      "m_num_vars t' = 2" "is_true t' (Lit 0 False)" "is_false t' (Lit 1 False)"
    by blast
  from init_model_known_values [of t'] r(3)
  have "\<forall>v<2. (is_true t' (Lit v False) \<longrightarrow> m_model (init_model t') ! v = l_true)
         \<and> (is_false t' (Lit v False) \<longrightarrow> m_model (init_model t') ! v = l_false)"
    by simp
  with r(4,5) have "m_model (init_model t') ! 0 = l_true" "m_model (init_model t') ! 1 = l_false"
    by auto
  with r show ?thesis by blast
qed


section \<open>Verification: the scores of the pre-selection\<close>

lemma h_denominator_nonzero: "h_denominator hi s \<noteq> 0"
  by (simp add: h_denominator_def Let_def)

lemma score_binary_fields:
  "m_config (snd (score_binary hi l w p)) = m_config (snd p)
   \<and> m_H (snd (score_binary hi l w p)) = m_H (snd p)
   \<and> m_freevars (snd (score_binary hi l w p)) = m_freevars (snd p)"
  by (cases p) (simp add: score_binary_def Let_def)

lemma fold_score_binary_fields:
  "m_config (snd (fold (score_binary hi l) ws p)) = m_config (snd p)
   \<and> m_H (snd (fold (score_binary hi l) ws p)) = m_H (snd p)
   \<and> m_freevars (snd (fold (score_binary hi l) ws p)) = m_freevars (snd p)"
  by (induction ws arbitrary: p) (simp_all add: score_binary_fields)

lemma l_score_fields:
  "m_config (snd (l_score l hi f sq af s)) = m_config s
   \<and> m_H (snd (l_score l hi f sq af s)) = m_H s
   \<and> m_freevars (snd (l_score l hi f sq af s)) = m_freevars s"
  using fold_score_binary_fields [of hi l "m_binary s (index l)" "(0, s)"]
  by (simp add: l_score_def Let_def case_prod_beta)

lemma l_score_le: "fst (l_score l hi f sq af s) \<le> m_max_score (m_config s)"
  using fold_score_binary_fields [of hi l "m_binary s (index l)" "(0, s)"]
  by (simp add: l_score_def Let_def case_prod_beta)

text \<open>
  \<open>scored hpi xs s\<close>: the scores of the two literals of each variable of \<open>xs\<close> in the
  array \<open>hpi\<close> are at most \<open>max_score\<close>.
\<close>

definition scored :: "nat \<Rightarrow> nat list \<Rightarrow> lookahead \<Rightarrow> bool" where
  "scored hpi xs s \<longleftrightarrow>
     list_all (\<lambda>x. (m_H s ! hpi) (index (Lit x False)) \<le> m_max_score (m_config s)
                 \<and> (m_H s ! hpi) (index (Lit x True)) \<le> m_max_score (m_config s)) xs"

lemma h_score_var_fields:
  "m_config (h_score_var hi hpi f sq af x s) = m_config s
   \<and> length (m_H (h_score_var hi hpi f sq af x s)) = length (m_H s)
   \<and> m_freevars (h_score_var hi hpi f sq af x s) = m_freevars s"
  using l_score_fields [of "Lit x False" hi f sq af s]
    l_score_fields [of "neg (Lit x False)" hi f sq af "snd (l_score (Lit x False) hi f sq af s)"]
  by (simp add: h_score_var_def Let_def case_prod_beta)

lemma h_score_var_scored:
  assumes "hpi < length (m_H s)" "scored hpi xs s"
  shows "scored hpi (x # xs) (h_score_var hi hpi f sq af x s)"
proof -
  define s1 where "s1 = snd (l_score (Lit x False) hi f sq af s)"
  define pos where "pos = fst (l_score (Lit x False) hi f sq af s)"
  define s2 where "s2 = snd (l_score (neg (Lit x False)) hi f sq af s1)"
  define ng where "ng = fst (l_score (neg (Lit x False)) hi f sq af s1)"
  have f1: "m_config s1 = m_config s" "m_H s1 = m_H s"
    using l_score_fields [of "Lit x False" hi f sq af s] by (simp_all add: s1_def)
  have f2: "m_config s2 = m_config s" "m_H s2 = m_H s"
    using l_score_fields [of "neg (Lit x False)" hi f sq af s1] f1 by (simp_all add: s2_def)
  have le: "pos \<le> m_max_score (m_config s)" "ng \<le> m_max_score (m_config s)"
    using l_score_le [of "Lit x False" hi f sq af s]
      l_score_le [of "neg (Lit x False)" hi f sq af s1] f1
    by (simp_all add: pos_def ng_def)
  have eq: "h_score_var hi hpi f sq af x s
      = s2\<lparr>m_H := (m_H s)[hpi := ((m_H s ! hpi)(index (Lit x False) := pos,
                                                 index (neg (Lit x False)) := ng))],
            m_rating := (m_rating s2)(x := pos * ng)\<rparr>"
    using f2 by (simp add: h_score_var_def Let_def s1_def s2_def pos_def ng_def case_prod_beta)
  have n: "neg (Lit x False) = Lit x True" by (simp add: neg_def)
  show ?thesis
    unfolding eq scored_def using assms le
    by (auto simp: scored_def f2 n list_all_iff)
qed

lemma fold_h_score_var_scored:
  assumes "hpi < length (m_H s)" "scored hpi ys s"
  shows "scored hpi (rev xs @ ys) (fold (h_score_var hi hpi f sq af) xs s)
         \<and> m_config (fold (h_score_var hi hpi f sq af) xs s) = m_config s"
  using assms
proof (induction xs arbitrary: s ys)
  case Nil
  then show ?case by simp
next
  case (Cons x xs)
  have 1: "hpi < length (m_H (h_score_var hi hpi f sq af x s))"
    using Cons.prems(1) h_score_var_fields [of hi hpi f sq af x s] by simp
  have 2: "scored hpi (x # ys) (h_score_var hi hpi f sq af x s)"
    using Cons.prems by (rule h_score_var_scored)
  from Cons.IH [OF 1 2] h_score_var_fields [of hi hpi f sq af x s]
  show ?case by simp
qed

lemma h_scores_scored:
  assumes "hpi < length (m_H s)"
  shows "scored hpi (m_freevars s) (h_scores hi hpi s)"
    and "m_config (h_scores hi hpi s) = m_config s"
proof -
  have "scored hpi [] s" by (simp add: scored_def)
  from fold_h_score_var_scored [OF assms this, of "m_freevars s" hi]
  have "scored hpi (rev (m_freevars s)) (h_scores hi hpi s)
        \<and> m_config (h_scores hi hpi s) = m_config s"
    by (simp add: h_scores_def Let_def)
  then show "scored hpi (m_freevars s) (h_scores hi hpi s)"
    and "m_config (h_scores hi hpi s) = m_config s"
    by (auto simp: scored_def list_all_iff)
qed

text \<open>
  Claim C10. Over the reals, which stand for the doubles of the code: the denominator of
  the normalisation factor of \<^verbatim>\<open>h_scores\<close> is the sum of the scores of the free
  variables, or 0.0001 when that sum is 0, and so never 0; every score \<^verbatim>\<open>l_score\<close>
  returns is at most \<open>max_score\<close>; and after \<^verbatim>\<open>h_scores\<close> the scores of both literals of
  every free variable, in the array \<^verbatim>\<open>hp\<close> it has written, are at most \<open>max_score\<close>.
\<close>

theorem h_scores_total_and_bounded:
  "h_denominator hi s \<noteq> 0
   \<and> h_denominator hi s = (if h_sum hi s = 0 then 1 / 10000 else h_sum hi s)
   \<and> h_scores hi hpi s
       = fold (h_score_var hi hpi
                 (real (2 * length (m_freevars s)) / h_denominator hi s)
                 (real (2 * length (m_freevars s)) / h_denominator hi s
                    * (real (2 * length (m_freevars s)) / h_denominator hi s))
                 (real (2 * length (m_freevars s)) / h_denominator hi s * m_alpha (m_config s)))
           (m_freevars s) s
   \<and> fst (l_score l hi factor sqfactor afactor s) \<le> m_max_score (m_config s)
   \<and> (hpi < length (m_H s) \<longrightarrow>
        (\<forall>x \<in> set (m_freevars s).
           (m_H (h_scores hi hpi s) ! hpi) (index (Lit x False)) \<le> m_max_score (m_config s)
           \<and> (m_H (h_scores hi hpi s) ! hpi) (index (neg (Lit x False)))
                 \<le> m_max_score (m_config s)))"
proof -
  have "(m_H (h_scores hi hpi s) ! hpi) (index (Lit x False)) \<le> m_max_score (m_config s)
        \<and> (m_H (h_scores hi hpi s) ! hpi) (index (neg (Lit x False))) \<le> m_max_score (m_config s)"
    if "hpi < length (m_H s)" "x \<in> set (m_freevars s)" for x
    using h_scores_scored [OF that(1), of hi] that(2)
    by (auto simp: scored_def list_all_iff neg_def)
  then show ?thesis
    by (simp add: h_denominator_nonzero l_score_le)
       (simp add: h_denominator_def h_scores_def Let_def)
qed

theorem h_scores_total_and_bounded_witness:
  "\<exists>s s1 s2. init_search pigeonhole_cnf = Some s \<and> s1 = ensure_H 2 s \<and> s2 = h_scores 0 1 s1
      \<and> 1 < length (m_H s1) \<and> 0 \<in> set (m_freevars s1)
      \<and> h_sum 0 s1 = 0 \<and> h_denominator 0 s1 = 1 / 10000
      \<and> (m_H s2 ! 1) (index (Lit 0 False)) = 1 / 10
      \<and> (m_H s2 ! 1) (index (Lit 0 False)) \<le> m_max_score (m_config s1)
      \<and> 2 < length (m_H s2) \<and> 0 \<in> set (m_freevars s2)
      \<and> h_sum 1 s2 = 2 / 5 \<and> h_denominator 1 s2 = 2 / 5
      \<and> (m_H (h_scores 1 2 s2) ! 2) (index (Lit 0 False)) = 71 / 10
      \<and> (m_H (h_scores 1 2 s2) ! 2) (index (Lit 0 False)) \<le> m_max_score (m_config s2)
      \<and> m_max_score (m_config s2) = 20"
proof -
  define s where "s = the (init_search pigeonhole_cnf)"
  define s1 where "s1 = ensure_H 2 s"
  define s2 where "s2 = h_scores 0 1 s1"
  have i: "init_search pigeonhole_cnf = Some s"
    by (simp add: s_def pigeonhole_cnf_def eval_all cong: eval_cong)
  have a: "1 < length (m_H s1)" "0 \<in> set (m_freevars s1)" "h_sum 0 s1 = 0"
    by (simp_all add: s1_def s_def pigeonhole_cnf_def eval_all cong: eval_cong)
  have b: "(m_H s2 ! 1) (index (Lit 0 False)) = 1 / 10"
    "2 < length (m_H s2)" "0 \<in> set (m_freevars s2)" "h_sum 1 s2 = 2 / 5"
    "m_max_score (m_config s2) = 20"
    by (simp_all add: s2_def s1_def s_def pigeonhole_cnf_def eval_all cong: eval_cong)
  have c: "(m_H (h_scores 1 2 s2) ! 2) (index (Lit 0 False)) = 71 / 10"
    by (simp add: s2_def s1_def s_def pigeonhole_cnf_def eval_all cong: eval_cong)
  from h_scores_total_and_bounded [of 0 s1 1]
  have d0: "h_denominator 0 s1 = (if h_sum 0 s1 = 0 then 1 / 10000 else h_sum 0 s1)"
    "1 < length (m_H s1) \<longrightarrow>
       (\<forall>x \<in> set (m_freevars s1).
          (m_H (h_scores 0 1 s1) ! 1) (index (Lit x False)) \<le> m_max_score (m_config s1)
          \<and> (m_H (h_scores 0 1 s1) ! 1) (index (neg (Lit x False)))
                \<le> m_max_score (m_config s1))"
    by blast+
  from d0 a
  have d: "h_denominator 0 s1 = 1 / 10000"
    "(m_H (h_scores 0 1 s1) ! 1) (index (Lit 0 False)) \<le> m_max_score (m_config s1)"
    by auto
  from h_scores_total_and_bounded [of 1 s2 2]
  have e0: "h_denominator 1 s2 = (if h_sum 1 s2 = 0 then 1 / 10000 else h_sum 1 s2)"
    "2 < length (m_H s2) \<longrightarrow>
       (\<forall>x \<in> set (m_freevars s2).
          (m_H (h_scores 1 2 s2) ! 2) (index (Lit x False)) \<le> m_max_score (m_config s2)
          \<and> (m_H (h_scores 1 2 s2) ! 2) (index (neg (Lit x False)))
                \<le> m_max_score (m_config s2))"
    by blast+
  from e0 b
  have e: "h_denominator 1 s2 = 2 / 5"
    "(m_H (h_scores 1 2 s2) ! 2) (index (Lit 0 False)) \<le> m_max_score (m_config s2)"
    by auto
  from i a b c d e show ?thesis
    unfolding s2_def [symmetric] by (simp add: s1_def s2_def)
qed

section \<open>Verification: the scope stacks\<close>

text \<open>
  Only \<^verbatim>\<open>push\<close>, \<^verbatim>\<open>pop\<close>, \<^verbatim>\<open>init_wnb\<close> and \<^verbatim>\<open>reset_wnb\<close> write the scope stacks. The
  first lemmas say so of every other step of the search, the pre-selection and the
  lookahead.
\<close>

text \<open>
  The equations of the loops that are defined by well-founded recursion are unfolded by
  hand, not by the simplifier.
\<close>

declare trim_pass.simps [simp del]
declare trim_loop.simps [simp del]
declare sift_up_loop.simps [simp del]
declare backtrack.simps [simp del]

lemma lims_upd [simp]:
  "lims (s\<lparr>m_s := x0\<rparr>) = lims s"
  "lims (s\<lparr>m_config := x1\<rparr>) = lims s"
  "lims (s\<lparr>m_num_vars := x2\<rparr>) = lims s"
  "lims (s\<lparr>m_binary := x3\<rparr>) = lims s"
  "lims (s\<lparr>m_binary_trail := x4\<rparr>) = lims s"
  "lims (s\<lparr>m_num_tc1 := x5\<rparr>) = lims s"
  "lims (s\<lparr>m_cls_allocator := x6\<rparr>) = lims s"
  "lims (s\<lparr>m_clauses := x7\<rparr>) = lims s"
  "lims (s\<lparr>m_retired_clauses := x8\<rparr>) = lims s"
  "lims (s\<lparr>m_retired_ternary := x9\<rparr>) = lims s"
  "lims (s\<lparr>m_watches := x10\<rparr>) = lims s"
  "lims (s\<lparr>m_full_watches := x11\<rparr>) = lims s"
  "lims (s\<lparr>m_trail := x12\<rparr>) = lims s"
  "lims (s\<lparr>m_qhead := x13\<rparr>) = lims s"
  "lims (s\<lparr>m_level := x14\<rparr>) = lims s"
  "lims (s\<lparr>m_stamp := x15\<rparr>) = lims s"
  "lims (s\<lparr>m_value := x16\<rparr>) = lims s"
  "lims (s\<lparr>m_inconsistent := x17\<rparr>) = lims s"
  "lims (s\<lparr>m_search_mode := x18\<rparr>) = lims s"
  "lims (s\<lparr>m_bstamp := x19\<rparr>) = lims s"
  "lims (s\<lparr>m_bstamp_id := x20\<rparr>) = lims s"
  "lims (s\<lparr>m_istamp_id := x21\<rparr>) = lims s"
  "lims (s\<lparr>m_double_lookahead := x22\<rparr>) = lims s"
  "lims (s\<lparr>m_wnb := x23\<rparr>) = lims s"
  "lims (s\<lparr>m_freevars := x24\<rparr>) = lims s"
  "lims (s\<lparr>m_assumptions := x25\<rparr>) = lims s"
  "lims (s\<lparr>m_drat_out := x26\<rparr>) = lims s"
  "lims (s\<lparr>m_wstack := x27\<rparr>) = lims s"
  "lims (s\<lparr>m_weighted_new_binaries := x28\<rparr>) = lims s"
  "lims (s\<lparr>m_H := x29\<rparr>) = lims s"
  "lims (s\<lparr>m_heur := x30\<rparr>) = lims s"
  "lims (s\<lparr>m_rating := x31\<rparr>) = lims s"
  "lims (s\<lparr>m_candidates := x32\<rparr>) = lims s"
  "lims (s\<lparr>m_dfs := x33\<rparr>) = lims s"
  "lims (s\<lparr>m_rank := x34\<rparr>) = lims s"
  "lims (s\<lparr>m_active := x35\<rparr>) = lims s"
  "lims (s\<lparr>m_settled := x36\<rparr>) = lims s"
  "lims (s\<lparr>m_root_child := x37\<rparr>) = lims s"
  "lims (s\<lparr>m_lookahead := x38\<rparr>) = lims s"
  "lims (s\<lparr>m_delta_trigger := x39\<rparr>) = lims s"
  "lims (s\<lparr>m_select_lookahead_vars := x40\<rparr>) = lims s"
  "lims (s\<lparr>m_prefix := x41\<rparr>) = lims s"
  "lims (s\<lparr>m_vprefix := x42\<rparr>) = lims s"
  "lims (s\<lparr>m_ext := x43\<rparr>) = lims s"
  "lims (s\<lparr>m_limits := x44\<rparr>) = lims s"
  "lims (s\<lparr>m_rand := x45\<rparr>) = lims s"
  "lims (s\<lparr>m_verbose := x46\<rparr>) = lims s"
  "lims (s\<lparr>m_model := x47\<rparr>) = lims s"
  by (simp_all add: lims_def)

lemma lims_fold: "(\<And>x t. lims (f x t) = lims t) \<Longrightarrow> lims (fold f xs s) = lims s"
  by (induction xs arbitrary: s) simp_all

lemma lims_fold_snd:
  "(\<And>x p. lims (snd (f x p)) = lims (snd p)) \<Longrightarrow> lims (snd (fold f xs p)) = lims (snd p)"
  by (induction xs arbitrary: p) simp_all

lemma scope_ext_lims: "scope_ext s s' \<Longrightarrow> lims s' = lims s"
  by (simp add: scope_ext_def)

lemma lims_assign [simp]: "lims (assign l s) = lims s"
  by (rule scope_ext_lims [OF scope_ext_assign [OF scope_ext_refl]])

lemma lims_add_binary [simp]: "lims (add_binary u v s) = lims s"
  by (rule scope_ext_lims [OF scope_ext_add_binary [OF scope_ext_refl]])

lemma lims_propagate: "propagate s = Some s' \<Longrightarrow> lims s' = lims s"
  by (rule scope_ext_lims [OF scope_ext_propagate [OF _ scope_ext_refl]])

lemma lims_push_lookahead1: "push_lookahead1 lit level s = Some s' \<Longrightarrow> lims s' = lims s"
  by (rule scope_ext_lims [OF scope_ext_push_lookahead1 [OF _ scope_ext_refl]])

lemma lims_push_lookahead2:
  "push_lookahead2 lit level s = Some (unsat, s') \<Longrightarrow> lims s' = lims s"
  by (rule scope_ext_lims [OF scope_ext_push_lookahead2 [OF _ scope_ext_refl]])

lemma lims_pop_lookahead1 [simp]: "lims (pop_lookahead1 lit s) = lims s"
  by (rule scope_ext_lims [OF scope_ext_pop_lookahead1 [OF scope_ext_refl]])

lemma lims_set_conflict [simp]: "lims (set_conflict s) = lims s"
  by (simp add: set_conflict_def)

lemma lims_inc_bstamp [simp]: "lims (inc_bstamp s) = lims s"
  by (simp add: inc_bstamp_def Let_def)

lemma lims_set_bstamp [simp]: "lims (set_bstamp l s) = lims s"
  by (simp add: set_bstamp_def)

lemma lims_inc_istamp [simp]: "lims (inc_istamp s) = lims s"
  by (simp add: inc_istamp_def Let_def)

lemma lims_flip_prefix [simp]: "lims (flip_prefix s) = lims s"
  by (simp add: flip_prefix_def Let_def)

subsection \<open>Pre-selection\<close>

lemma lims_score_binary: "lims (snd (score_binary hi l w p)) = lims (snd p)"
  by (cases p) (simp add: score_binary_def Let_def)

lemma lims_l_score [simp]: "lims (snd (l_score l hi f sq af s)) = lims s"
  using lims_fold_snd [of "score_binary hi l" "m_binary s (index l)" "(0, s)",
      OF lims_score_binary]
  by (simp add: l_score_def Let_def case_prod_beta)

lemma lims_h_score_var [simp]: "lims (h_score_var hi hpi f sq af x s) = lims s"
  by (simp add: h_score_var_def Let_def case_prod_beta)

lemma lims_h_scores [simp]: "lims (h_scores hi hpi s) = lims s"
  by (simp add: h_scores_def Let_def lims_fold)

lemma lims_ensure_H [simp]: "lims (ensure_H level s) = lims s"
  by (simp add: ensure_H_def)

lemma lims_init_pre_selection [simp]: "lims (init_pre_selection level s) = lims s"
  by (simp add: init_pre_selection_def Let_def)

lemma lims_init_candidates [simp]: "lims (snd (init_candidates level newbies s)) = lims s"
proof -
  have "lims (snd (fold f xs p)) = lims (snd p)"
    if "f = (\<lambda>x (sum, t).
             if m_select_lookahead_vars t \<noteq> [] then
               if x \<in> set (m_select_lookahead_vars t)
               then (sum + m_rating t x, t\<lparr>m_candidates := m_candidates t @ [(x, m_rating t x)]\<rparr>)
               else (sum, t)
             else if newbies \<or> active_prefix t x
             then (sum + m_rating t x, t\<lparr>m_candidates := m_candidates t @ [(x, m_rating t x)]\<rparr>)
             else (sum, t))" for f xs and p :: "real \<times> lookahead"
    by (rule lims_fold_snd) (simp add: that case_prod_beta)
  then show ?thesis by (simp add: init_candidates_def)
qed

lemma lims_select_candidates:
  assumes major: "select_candidates level newbies s = Some r"
  shows "lims (snd r) = lims s"
proof (rule select_candidates.raw_induct [OF _ major], goal_cases)
  case (1 select_candidates' level newbies s r)
  obtain sm s1 where i: "init_candidates level newbies s = (sm, s1)"
    by (cases "init_candidates level newbies s")
  then have l1: "lims s1 = lims s"
    using lims_init_candidates [of level newbies s] by simp
  show ?case
  proof (cases "m_candidates s1 \<noteq> [] \<or> is_sat s1")
    case True
    with 1(2) i l1 show ?thesis by (auto split: if_splits)
  next
    case False
    with 1(2) i have "select_candidates' level True s1 = Some r" by simp
    from 1(1) [OF this] l1 show ?thesis by simp
  qed
qed

lemma lims_select: "select level s = Some (b, s') \<Longrightarrow> lims s' = lims s"
proof -
  assume a: "select level s = Some (b, s')"
  define s1 where "s1 = init_pre_selection level s"
  show ?thesis
  proof (cases "select_candidates level False s1")
    case None
    with a show ?thesis by (simp add: select_def Let_def s1_def)
  next
    case (Some r)
    obtain sm s2 where r: "r = (sm, s2)" by (cases r)
    from lims_select_candidates [OF Some] r have l2: "lims s2 = lims s" by (simp add: s1_def)
    show ?thesis
    proof (cases sm)
      case None
      with a Some r l2 show ?thesis by (simp add: select_def Let_def s1_def)
    next
      case (Some x)
      with a \<open>select_candidates level False s1 = Some r\<close> r
      have "\<exists>X. s' = s2\<lparr>m_candidates := X\<rparr>"
        by (auto simp: select_def Let_def s1_def case_prod_beta split: if_splits option.splits)
      with l2 show ?thesis by auto
    qed
  qed
qed

subsection \<open>Strongly connected components\<close>

lemma lims_upd_dfs [simp]: "lims (upd_dfs l f s) = lims s"
  by (simp add: upd_dfs_def)

lemma lims_dfs_setters [simp]:
  "lims (set_rank l r s) = lims s" "lims (set_height l h s) = lims s"
  "lims (set_parent l p s) = lims s" "lims (set_link l p s) = lims s"
  "lims (set_min l p s) = lims s" "lims (set_vcomp l p s) = lims s"
  "lims (add_arc u v s) = lims s" "lims (snd (pop_arc u s)) = lims s"
  "lims (set_child v u s) = lims s" "lims (set_lookahead l s) = lims s"
  "lims (set_offset idx offset s) = lims s" "lims (init_dfs_info l s) = lims s"
  by (simp_all add: set_rank_def set_height_def set_parent_def set_link_def set_min_def
      set_vcomp_def add_arc_def pop_arc_def set_child_def set_lookahead_def set_offset_def
      init_dfs_info_def)

lemma lims_init_arcs [simp]: "lims (init_arcs l s) = lims s"
  by (simp add: init_arcs_def lims_fold)

lemma lims_init_scc [simp]: "lims (init_scc s) = lims s"
  by (simp add: init_scc_def Let_def lims_fold)

lemma lims_activate_scc [simp]: "lims (activate_scc l s) = lims s"
  by (simp add: activate_scc_def Let_def)

lemma lims_found_scc_loop:
  assumes major: "found_scc_loop v t best best_rating s = Some r"
  shows "lims (snd r) = lims s"
proof (rule found_scc_loop.raw_induct [OF _ major], goal_cases)
  case (1 found_scc_loop' v t best best_rating s r)
  show ?case
  proof (cases "t \<noteq> v \<and> t \<noteq> neg v")
    case False
    with 1(2) show ?thesis by (auto split: if_splits)
  next
    case True
    define s1 where "s1 = set_parent t v (set_rank t UINT_MAX s)"
    from True 1(2) obtain b br where "found_scc_loop' v (get_link s1 t) b br s1 = Some r"
      by (auto simp: Let_def s1_def split: if_splits)
    from 1(1) [OF this] show ?thesis by (simp add: s1_def)
  qed
qed

lemma lims_found_scc: "found_scc v s = Some s' \<Longrightarrow> lims s' = lims s"
proof -
  assume a: "found_scc v s = Some s'"
  define s3 where "s3 = (set_link v (m_settled (set_rank v UINT_MAX (s\<lparr>m_active := get_link s v\<rparr>)))
      (set_rank v UINT_MAX (s\<lparr>m_active := get_link s v\<rparr>)))\<lparr>m_settled := m_active s\<rparr>"
  from a obtain best s4 where c: "found_scc_loop v (m_active s) v (get_rating s3 v) s3 = Some (best, s4)"
    by (auto simp: found_scc_def Let_def s3_def split: option.splits)
  from lims_found_scc_loop [OF c] have "lims s4 = lims s" by (simp add: s3_def)
  moreover from a c have "lims s' = lims s4"
    by (auto simp: found_scc_def Let_def s3_def split: option.splits if_splits)
  ultimately show ?thesis by simp
qed

lemma lims_get_scc_loop:
  assumes major: "get_scc_loop v s = Some s'"
  shows "lims s' = lims s"
proof (rule get_scc_loop.raw_induct [OF _ major], goal_cases)
  case (1 get_scc_loop' v s s')
  define step where "step =
       (let ll = get_min s v in
        if has_arc s v then
          let (u, s1) = pop_arc v s;
              r = get_rank s1 u
          in if 0 < r then
               Some (v, if r < get_rank s1 ll then set_min v u s1 else s1)
             else Some (u, activate_scc u (set_parent u v s1))
        else
          let u = get_parent s v in
          if v = ll then Option.bind (found_scc v s) (\<lambda>s1. Some (u, s1))
          else if get_rank s ll < get_rank s (get_min s u) then Some (u, set_min u ll s)
          else Some (u, s))"
  from 1(2) obtain v1 s1 where st: "step = Some (v1, s1)"
    and rest: "(if v1 \<noteq> null_literal \<and> \<not> inconsistent s1 then get_scc_loop' v1 s1 else Some s1)
                = Some s'"
    unfolding step_def [symmetric] by (auto simp: bind_eq_Some_conv)
  have l1: "lims s1 = lims s"
  proof (cases "has_arc s v")
    case True
    with st show ?thesis
      using lims_dfs_setters(8) [of v s]
      by (auto simp: step_def Let_def case_prod_beta split: if_splits)
  next
    case False
    with st show ?thesis
      by (auto simp: step_def Let_def bind_eq_Some_conv lims_found_scc split: if_splits)
  qed
  show ?case
  proof (cases "v1 \<noteq> null_literal \<and> \<not> inconsistent s1")
    case True
    with rest have "get_scc_loop' v1 s1 = Some s'" by simp
    from 1(1) [OF this] l1 show ?thesis by simp
  next
    case False
    with rest l1 show ?thesis by auto
  qed
qed

lemma lims_get_scc_lit: "get_scc_lit v s = Some s' \<Longrightarrow> lims s' = lims s"
  using lims_get_scc_loop [of v "activate_scc v (set_parent v null_literal s)" s']
  by (simp add: get_scc_lit_def)

lemma lims_get_scc_candidates:
  "get_scc_candidates cs s = Some s' \<Longrightarrow> lims s' = lims s"
proof (induction cs arbitrary: s)
  case Nil
  then show ?case by simp
next
  case (Cons c cs)
  show ?case
  proof (cases "inconsistent s")
    case True
    with Cons.prems show ?thesis by simp
  next
    case False
    with Cons.prems obtain s1 s2 where
      a: "(if get_rank s (Lit (fst c) False) = 0 then get_scc_lit (Lit (fst c) False) s else Some s)
            = Some s1"
      and b: "(if get_rank s1 (neg (Lit (fst c) False)) = 0
              then get_scc_lit (neg (Lit (fst c) False)) s1 else Some s1) = Some s2"
      and c: "get_scc_candidates cs s2 = Some s'"
      by (auto simp: Let_def bind_eq_Some_conv)
    from a have "lims s1 = lims s" by (auto simp: lims_get_scc_lit split: if_splits)
    moreover from b have "lims s2 = lims s1" by (auto simp: lims_get_scc_lit split: if_splits)
    moreover from Cons.IH [OF c] have "lims s' = lims s2" .
    ultimately show ?thesis by simp
  qed
qed

lemma lims_get_scc: "get_scc s = Some s' \<Longrightarrow> lims s' = lims s"
  using lims_get_scc_candidates [of "m_candidates (init_scc s)" "init_scc s" s']
  by (simp add: get_scc_def Let_def)

subsection \<open>Lookahead table\<close>

lemma lims_find_heights_loop:
  assumes major: "find_heights_loop u pp h w s = Some s'"
  shows "lims s' = lims s"
proof (rule find_heights_loop.raw_induct [OF _ major], goal_cases)
  case (1 find_heights_loop' u pp h w s s')
  show ?case
  proof (cases "u \<noteq> null_literal")
    case False
    with 1(2) show ?thesis by simp
  next
    case True
    with 1(2) obtain u1 pp1 h1 w1 s1 where
      "find_heights_loop' u1 pp1 h1 w1 s1 = Some s'" "lims s1 = lims s"
      by (auto simp: Let_def case_prod_beta split: if_splits)
    with 1(1) show ?thesis by fastforce
  qed
qed

lemma lims_find_heights: "find_heights s = Some s' \<Longrightarrow> lims s' = lims s"
  using lims_find_heights_loop [of "m_settled s" null_literal 0 null_literal
      "s\<lparr>m_root_child := null_literal\<rparr>" s']
  by (simp add: find_heights_def Let_def)

lemma lims_table_up:
  assumes major: "table_up u v offset s = Some r"
  shows "lims (snd (snd (snd r))) = lims s"
proof (rule table_up.raw_induct [OF _ major], goal_cases)
  case (1 table_up' u v offset s r)
  define s2 where "s2 = set_parent u (if v = null_literal then v
      else get_vcomp (set_offset (get_rank s u) offset s) v) (set_offset (get_rank s u) offset s)"
  have l2: "lims s2 = lims s" by (simp add: s2_def)
  show ?case
  proof (cases "get_link s2 u = null_literal \<and> v \<noteq> null_literal")
    case True
    with 1(2) [unfolded Let_def, folded s2_def]
    have "table_up' v (get_parent s2 v) (offset + 2) s2 = Some r"
      by simp
    from 1(1) [OF this] l2 show ?thesis by simp
  next
    case False
    with 1(2) [unfolded Let_def, folded s2_def]
    have "r = (get_link s2 u, v, offset + 2, s2)"
      by (auto split: if_splits)
    with l2 show ?thesis by simp
  qed
qed

lemma lims_table_loop:
  assumes major: "table_loop u v offset s = Some s'"
  shows "lims s' = lims s"
proof (rule table_loop.raw_induct [OF _ major], goal_cases)
  case (1 table_loop' u v offset s s')
  show ?case
  proof (cases "u \<noteq> null_literal")
    case False
    with 1(2) show ?thesis by simp
  next
    case True
    define s2 where "s2 = set_lookahead (get_vcomp (set_rank u (length (m_lookahead s)) s) u)
        (set_rank u (length (m_lookahead s)) s)"
    have l2: "lims s2 = lims s" by (simp add: s2_def)
    show ?thesis
    proof (cases "null_literal \<noteq> get_child s2 u")
      case c: True
      with True 1(2) have "table_loop' (get_child s2 u) u offset (set_parent u v s2) = Some s'"
        by (simp add: Let_def s2_def)
      from 1(1) [OF this] l2 show ?thesis by simp
    next
      case c: False
      with True 1(2) obtain u1 v1 offset1 s3 where
        up: "table_up u v offset s2 = Some (u1, v1, offset1, s3)"
        and r: "table_loop' u1 v1 offset1 s3 = Some s'"
        by (auto simp: Let_def s2_def bind_eq_Some_conv)
      from lims_table_up [OF up] l2 have "lims s3 = lims s" by simp
      with 1(1) [OF r] show ?thesis by simp
    qed
  qed
qed

lemma lims_construct_lookahead_table:
  "construct_lookahead_table s = Some s' \<Longrightarrow> lims s' = lims s"
  by (simp add: construct_lookahead_table_def lims_table_loop)

lemma lims_pre_select: "pre_select s = Some s' \<Longrightarrow> lims s' = lims s"
proof -
  assume a: "pre_select s = Some s'"
  then obtain found s1 where
    sel: "select (scope_lvl s) (s\<lparr>m_lookahead := []\<rparr>) = Some (found, s1)"
    by (auto simp: pre_select_def bind_eq_Some_conv)
  from lims_select [OF sel] have l1: "lims s1 = lims s" by simp
  show ?thesis
  proof (cases found)
    case False
    with a sel l1 show ?thesis by (simp add: pre_select_def)
  next
    case True
    with a sel obtain s2 where g: "get_scc s1 = Some s2"
      and r: "(if inconsistent s2 then Some s2
               else Option.bind (find_heights s2) construct_lookahead_table) = Some s'"
      by (auto simp: pre_select_def bind_eq_Some_conv)
    from lims_get_scc [OF g] l1 have l2: "lims s2 = lims s" by simp
    from r have "lims s' = lims s2"
      by (auto simp: bind_eq_Some_conv lims_find_heights lims_construct_lookahead_table
          split: if_splits)
    with l2 show ?thesis by simp
  qed
qed

subsection \<open>Depths of the scope stacks\<close>

definition scope_depths :: "lookahead \<Rightarrow> nat \<times> nat \<times> nat \<times> nat \<times> nat \<times> nat" where
  "scope_depths s =
     (length (m_trail_lim s), length (m_qhead_lim s), length (m_binary_trail_lim s),
      length (m_num_tc1_lim s), length (m_retired_clause_lim s),
      length (m_retired_ternary_lim s))"

definition scopes_equal :: "lookahead \<Rightarrow> bool" where
  "scopes_equal s \<longleftrightarrow>
     length (m_qhead_lim s) = length (m_trail_lim s)
     \<and> length (m_binary_trail_lim s) = length (m_trail_lim s)
     \<and> length (m_num_tc1_lim s) = length (m_trail_lim s)
     \<and> length (m_retired_clause_lim s) = length (m_trail_lim s)
     \<and> length (m_retired_ternary_lim s) = length (m_trail_lim s)"

definition wnb_scope_open :: "lookahead \<Rightarrow> bool" where
  "wnb_scope_open s \<longleftrightarrow>
     length (m_qhead_lim s) = length (m_trail_lim s)
     \<and> length (m_trail_lim s) = Suc (length (m_binary_trail_lim s))
     \<and> length (m_num_tc1_lim s) = length (m_binary_trail_lim s)
     \<and> length (m_retired_clause_lim s) = length (m_binary_trail_lim s)
     \<and> length (m_retired_ternary_lim s) = length (m_binary_trail_lim s)"

definition wnb_bump :: "nat \<times> nat \<times> nat \<times> nat \<times> nat \<times> nat \<Rightarrow> nat \<times> nat \<times> nat \<times> nat \<times> nat \<times> nat"
  where
  "wnb_bump d = (case d of (a, b, r) \<Rightarrow> (Suc a, Suc b, r))"

definition sum_inv ::
  "('a \<Rightarrow> bool) \<Rightarrow> (error \<Rightarrow> lookahead \<Rightarrow> bool) \<Rightarrow> error \<times> lookahead + 'a \<Rightarrow> bool" where
  "sum_inv Q E y = (case y of Inl (e, s) \<Rightarrow> E e s | Inr x \<Rightarrow> Q x)"

lemma sum_inv_simps [simp]:
  "sum_inv Q E (Inl (e, s)) = E e s" "sum_inv Q E (Inr x) = Q x"
  by (simp_all add: sum_inv_def)

lemma sum_inv_mono:
  "sum_inv Q E y \<Longrightarrow> (\<And>x. Q x \<Longrightarrow> Q' x) \<Longrightarrow> (\<And>e s. E e s \<Longrightarrow> E' e s) \<Longrightarrow> sum_inv Q' E' y"
  by (cases y) (auto simp: sum_inv_def)

lemma obind_SomeE:
  assumes "obind m f = Some y"
  obtains (err) e where "m = Some (Inl e)" "y = Inl e"
        | (ok) x where "m = Some (Inr x)" "f x = Some y"
  using assms by (auto simp: obind_def split: option.splits sum.splits)

lemma of_option_simps [simp]:
  "of_option m = Some (Inr x) \<longleftrightarrow> m = Some x"
  "of_option m \<noteq> Some (Inl e)"
  by (auto simp: of_option_def split: option.splits)

lemma obind_of_optionD:
  "obind (of_option m) f = Some y \<Longrightarrow> \<exists>x. m = Some x \<and> f x = Some y"
  by (auto simp: obind_def of_option_def split: option.splits)

lemma of_result_simp [simp]: "of_result r = Some y \<longleftrightarrow> r = y"
  by (auto simp: of_result_def)

lemma oret_simp [simp]: "oret x = Some y \<longleftrightarrow> y = Inr x"
  by (auto simp: oret_def)

lemma scope_depths_lims: "lims s' = lims s \<Longrightarrow> scope_depths s' = scope_depths s"
  by (simp add: lims_def scope_depths_def)

lemma scope_depths_upd [simp]:
  "scope_depths (s\<lparr>m_level := x\<rparr>) = scope_depths s"
  "scope_depths (s\<lparr>m_delta_trigger := y\<rparr>) = scope_depths s"
  "scope_depths (s\<lparr>m_model := z\<rparr>) = scope_depths s"
  "scope_depths (s\<lparr>m_search_mode := w\<rparr>) = scope_depths s"
  by (simp_all add: scope_depths_def)

lemma scope_depths_assign [simp]: "scope_depths (assign l s) = scope_depths s"
  by (rule scope_depths_lims) simp

lemma scope_depths_propagate:
  "propagate s = Some s' \<Longrightarrow> scope_depths s' = scope_depths s"
  by (rule scope_depths_lims) (rule lims_propagate)

lemma wnb_bump_inj [simp]: "wnb_bump a = wnb_bump b \<longleftrightarrow> a = b"
  by (auto simp: wnb_bump_def split: prod.splits)

lemma scopes_equal_depths:
  "scope_depths s' = scope_depths s \<Longrightarrow> scopes_equal s' = scopes_equal s"
  by (simp add: scope_depths_def scopes_equal_def)

lemma wnb_scope_open_depths:
  "scope_depths s' = scope_depths s \<Longrightarrow> wnb_scope_open s' = wnb_scope_open s"
  by (simp add: scope_depths_def wnb_scope_open_def)

lemma wnb_scope_open_bump:
  "scope_depths s' = wnb_bump (scope_depths s) \<Longrightarrow> scopes_equal s \<Longrightarrow> wnb_scope_open s'"
  by (simp add: scope_depths_def wnb_bump_def scopes_equal_def wnb_scope_open_def)

subsection \<open>The scopes of the lookahead\<close>

lemma scope_depths_init_wnb [simp]: "scope_depths (init_wnb s) = wnb_bump (scope_depths s)"
  by (simp add: init_wnb_def scope_depths_def wnb_bump_def)

lemma lims_set_undef [simp]: "lims (set_undef l s) = lims s"
  by (simp add: set_undef_def)

lemma reset_wnb_inv:
  "sum_inv (\<lambda>s'. wnb_bump (scope_depths s') = scope_depths s) (\<lambda>e s'. e = Vector_bounds)
     (reset_wnb s)"
proof -
  have "lims (fold set_undef ls t) = lims t" for ls t
    by (rule lims_fold) simp
  then have "m_trail_lim (fold set_undef ls t) = m_trail_lim t
      \<and> m_qhead_lim (fold set_undef ls t) = m_qhead_lim t
      \<and> m_binary_trail_lim (fold set_undef ls t) = m_binary_trail_lim t
      \<and> m_num_tc1_lim (fold set_undef ls t) = m_num_tc1_lim t
      \<and> m_retired_clause_lim (fold set_undef ls t) = m_retired_clause_lim t
      \<and> m_retired_ternary_lim (fold set_undef ls t) = m_retired_ternary_lim t" for ls t
    by (simp add: lims_def)
  then show ?thesis
    by (simp add: reset_wnb_def Let_def scope_depths_def wnb_bump_def)
qed

lemma reset_wnb_ok:
  "reset_wnb s = Inr s' \<Longrightarrow> wnb_bump (scope_depths s') = scope_depths s"
  using reset_wnb_inv [of s] by simp

lemma reset_wnb_error: "reset_wnb s = Inl (e, s') \<Longrightarrow> e = Vector_bounds"
  using reset_wnb_inv [of s] by simp

lemma checkpoint_inv:
  "sum_inv (\<lambda>s'. lims s' = lims s) (\<lambda>e s'. lims s' = lims s \<and> e \<noteq> Vector_bounds)
     (checkpoint s)"
  by (simp add: checkpoint_def split: list.splits checkpoint_answer.splits)

lemma lims_reset_wnb_lit [simp]: "lims (reset_wnb_lit l s) = lims s"
  by (simp add: reset_wnb_lit_def Let_def set_wnb_def)

lemma update_wnb_ok:
  "update_wnb l level s = Some y \<Longrightarrow> \<exists>s'. y = Inr s' \<and> lims s' = lims s"
  by (auto simp: update_wnb_def check_autarky_def inc_wnb_def split: if_splits)

lemma double_look_pass_inv:
  "double_look_pass dl_truth base tbl change s = Some y \<Longrightarrow>
   sum_inv (\<lambda>(c, s'). scope_depths s' = scope_depths s) (\<lambda>e s'. e = Vector_bounds) y"
proof (induction tbl arbitrary: change s)
  case Nil
  then show ?case by auto
next
  case (Cons a tbl)
  obtain lit offset where a: "a = (lit, offset)" by (cases a)
  show ?case
  proof (cases "inconsistent s")
    case True
    with Cons.prems a show ?thesis by auto
  next
    case False
    show ?thesis
    proof (cases "is_fixed_at s lit dl_truth")
      case True
      with Cons.prems a False Cons.IH [of change s] show ?thesis by simp
    next
      case fx: False
      from Cons.prems a False fx
      have "obind (of_option (push_lookahead2 lit (base + offset) s)) (\<lambda>(unsat, s1).
          if unsat then
            obind (of_result (reset_wnb s1)) (\<lambda>s2.
            obind (of_option (propagate (assign (neg lit) s2))) (\<lambda>s3.
              double_look_pass dl_truth base tbl True (init_wnb s3)))
          else double_look_pass dl_truth base tbl change s1) = Some y"
        by simp
      from obind_of_optionD [OF this] obtain x where
        px: "push_lookahead2 lit (base + offset) s = Some x"
        and rx: "(case x of (unsat, s1) \<Rightarrow>
          if unsat then
            obind (of_result (reset_wnb s1)) (\<lambda>s2.
            obind (of_option (propagate (assign (neg lit) s2))) (\<lambda>s3.
              double_look_pass dl_truth base tbl True (init_wnb s3)))
          else double_look_pass dl_truth base tbl change s1) = Some y"
        by blast
      obtain unsat s1 where x: "x = (unsat, s1)" by (cases x)
      from px x have p: "push_lookahead2 lit (base + offset) s = Some (unsat, s1)" by simp
      from rx x have r: "(if unsat then
            obind (of_result (reset_wnb s1)) (\<lambda>s2.
            obind (of_option (propagate (assign (neg lit) s2))) (\<lambda>s3.
              double_look_pass dl_truth base tbl True (init_wnb s3)))
          else double_look_pass dl_truth base tbl change s1) = Some y"
        by simp
      from lims_push_lookahead2 [OF p] have d1: "scope_depths s1 = scope_depths s"
        by (rule scope_depths_lims)
      show ?thesis
      proof (cases unsat)
        case False
        with r have "double_look_pass dl_truth base tbl change s1 = Some y" by simp
        from Cons.IH [OF this] d1 show ?thesis by simp
      next
        case True
        with r have r': "obind (of_result (reset_wnb s1)) (\<lambda>s2.
            obind (of_option (propagate (assign (neg lit) s2))) (\<lambda>s3.
              double_look_pass dl_truth base tbl True (init_wnb s3))) = Some y"
          by simp
        then show ?thesis
        proof (cases rule: obind_SomeE)
          case (err e)
          then show ?thesis using reset_wnb_error [of s1 "fst e" "snd e"] by (cases e) auto
        next
          case (ok s2)
          then have rs: "reset_wnb s1 = Inr s2" by simp
          from obind_of_optionD [OF ok(2)] obtain s3 where
            pr: "propagate (assign (neg lit) s2) = Some s3"
            and dl: "double_look_pass dl_truth base tbl True (init_wnb s3) = Some y"
            by blast
          from scope_depths_propagate [OF pr] have "scope_depths s3 = scope_depths s2"
            by simp
          with reset_wnb_ok [OF rs] d1
          have "scope_depths (init_wnb s3) = scope_depths s" by simp
          with Cons.IH [OF dl] show ?thesis by simp
        qed
      qed
    qed
  qed
qed

lemma double_look_loop_inv:
  "double_look_loop dl_truth n base change s = Some y \<Longrightarrow>
   sum_inv (\<lambda>s'. scope_depths s' = scope_depths s) (\<lambda>e s'. e = Vector_bounds) y"
proof (induction n arbitrary: base change s)
  case 0
  then show ?case by auto
next
  case (Suc n)
  show ?case
  proof (cases "change \<and> \<not> inconsistent s")
    case False
    with Suc.prems show ?thesis by auto
  next
    case True
    with Suc.prems have "obind (double_look_pass dl_truth (base + 2 * length (m_lookahead s))
          (m_lookahead s) False s) (\<lambda>(change', s1).
          double_look_loop dl_truth n (base + 2 * length (m_lookahead s)) change' s1) = Some y"
      by (simp add: Let_def)
    then show ?thesis
    proof (cases rule: obind_SomeE)
      case (err e)
      with double_look_pass_inv [OF err(1)] show ?thesis by (cases e) auto
    next
      case (ok x)
      obtain c s1 where x: "x = (c, s1)" by (cases x)
      from double_look_pass_inv [OF ok(1)] x have "scope_depths s1 = scope_depths s" by simp
      with Suc.IH [of "base + 2 * length (m_lookahead s)" c s1] ok(2) x show ?thesis by simp
    qed
  qed
qed

lemma double_look_inv:
  assumes "double_look l base s = Some y"
  shows "sum_inv (\<lambda>(b, s'). scope_depths s' = scope_depths s) (\<lambda>e s'. e = Vector_bounds) y"
proof -
  define dl where "dl = base + 2 * length (m_lookahead s) * (m_dl_max_iterations (m_config s) + 1)"
  define s1 where "s1 = init_wnb (s\<lparr>m_level := dl\<rparr>)"
  have d1: "scope_depths s1 = wnb_bump (scope_depths s)" by (simp add: s1_def)
  from assms [unfolded double_look_def Let_def, folded dl_def, folded s1_def]
  have "obind (of_option (propagate (assign l s1))) (\<lambda>s2.
         obind (double_look_loop dl (m_dl_max_iterations (m_config s2)) base True s2) (\<lambda>s3.
         case reset_wnb s3 of
           Inl (e, s4) \<Rightarrow> Some (Inl (e, s4\<lparr>m_level := m_level s\<rparr>))
         | Inr s4 \<Rightarrow> oret (dl, s4\<lparr>m_level := m_level s\<rparr>))) = Some y" .
  then obtain s2 where p: "propagate (assign l s1) = Some s2"
    and r: "obind (double_look_loop dl (m_dl_max_iterations (m_config s2)) base True s2) (\<lambda>s3.
         case reset_wnb s3 of
           Inl (e, s4) \<Rightarrow> Some (Inl (e, s4\<lparr>m_level := m_level s\<rparr>))
         | Inr s4 \<Rightarrow> oret (dl, s4\<lparr>m_level := m_level s\<rparr>)) = Some y"
    by (blast dest: obind_of_optionD)
  from scope_depths_propagate [OF p] d1
  have d2: "scope_depths s2 = wnb_bump (scope_depths s)"
    by simp
  from r show ?thesis
  proof (cases rule: obind_SomeE)
    case (err e)
    with double_look_loop_inv [OF err(1)] show ?thesis by (cases e) auto
  next
    case (ok s3)
    from double_look_loop_inv [OF ok(1)] d2
    have d3: "scope_depths s3 = wnb_bump (scope_depths s)" by simp
    show ?thesis
    proof (cases "reset_wnb s3")
      case (Inl x)
      obtain e s4 where x: "x = (e, s4)" by (cases x)
      with Inl ok(2) reset_wnb_error [of s3 e s4] show ?thesis by auto
    next
      case (Inr s4)
      from reset_wnb_ok [OF Inr] d3 have "scope_depths s4 = scope_depths s" by simp
      with Inr ok(2) show ?thesis by auto
    qed
  qed
qed

lemma do_double_inv:
  assumes "do_double l base s = Some y"
  shows "sum_inv (\<lambda>(b, s'). scope_depths s' = scope_depths s) (\<lambda>e s'. e = Vector_bounds) y"
proof (cases "\<not> inconsistent s \<and> 1 < scope_lvl s \<and> dl_enabled s l
    \<and> m_delta_trigger s < get_wnb s l \<and> dl_no_overflow s base")
  case False
  with assms show ?thesis
    by (auto simp: do_double_def scope_depths_def split: if_splits)
next
  case True
  with assms have "obind (double_look l base s) (\<lambda>(base', s1).
              oret (base', dl_disable l (s1\<lparr>m_delta_trigger := get_wnb s1 l\<rparr>))) = Some y"
    by (simp add: do_double_def)
  then show ?thesis
  proof (cases rule: obind_SomeE)
    case (err e)
    with double_look_inv [OF err(1)] show ?thesis by (cases e) auto
  next
    case (ok x)
    obtain b s1 where x: "x = (b, s1)" by (cases x)
    from double_look_inv [OF ok(1)] x have "scope_depths s1 = scope_depths s" by simp
    with ok(2) x show ?thesis by (auto simp: dl_disable_def scope_depths_def)
  qed
qed

subsection \<open>The weighted new binaries\<close>

lemma checkpoint_ok: "checkpoint s = Inr s' \<Longrightarrow> scope_depths s' = scope_depths s"
  using checkpoint_inv [of s] scope_depths_lims [of s' s] by simp

lemma checkpoint_error:
  "checkpoint s = Inl (e, s') \<Longrightarrow> scope_depths s' = scope_depths s \<and> e \<noteq> Vector_bounds"
  using checkpoint_inv [of s] scope_depths_lims [of s' s] by simp

lemma scope_depths_probe:
  "push_lookahead1 lit level (reset_wnb_lit lit s) = Some s' \<Longrightarrow>
   scope_depths s' = scope_depths s"
  using lims_push_lookahead1 [of lit level "reset_wnb_lit lit s" s']
    scope_depths_lims [of s' s]
  by simp

lemma scope_depths_pop_lookahead1 [simp]:
  "scope_depths (pop_lookahead1 lit s) = scope_depths s"
  by (rule scope_depths_lims) simp

lemma compute_wnb_pass_inv:
  "compute_wnb_pass first tbl base change s = Some y \<Longrightarrow>
   sum_inv (\<lambda>(b, c, s'). scope_depths s' = scope_depths s)
     (\<lambda>e s'. e \<noteq> Vector_bounds \<longrightarrow> scope_depths s' = scope_depths s) y"
proof (induction tbl arbitrary: base change s)
  case Nil
  then show ?case by auto
next
  case (Cons a tbl)
  obtain lit offset where a: "a = (lit, offset)" by (cases a)
  show ?case
  proof (cases "inconsistent s")
    case True
    with Cons.prems a show ?thesis by auto
  next
    case False
    with Cons.prems a
    have "obind (of_result (checkpoint s)) (\<lambda>s0.
          if is_fixed_at s0 lit c_fixed_truth then compute_wnb_pass first tbl base change s0
          else
            let level = base + offset in
            if level \<le> m_stamp s0 (var lit) then compute_wnb_pass first tbl base change s0
            else
              obind (of_option (push_lookahead1 lit level (reset_wnb_lit lit s0))) (\<lambda>s1.
              obind (if \<not> first then do_double lit base s1 else oret (base, s1)) (\<lambda>(base', s2).
                let unsat = inconsistent s2;
                    s3 = pop_lookahead1 lit s2
                in if unsat then
                     obind (of_result (reset_wnb s3)) (\<lambda>s4.
                     obind (of_option (propagate (assign (neg lit) s4))) (\<lambda>s5.
                       compute_wnb_pass first tbl base' True (init_wnb s5)))
                   else
                     obind (update_wnb lit level s3) (\<lambda>s4.
                       compute_wnb_pass first tbl base' change s4)))) = Some y"
      by simp
    then show ?thesis
    proof (cases rule: obind_SomeE)
      case (err e)
      then show ?thesis using checkpoint_error [of s "fst e" "snd e"] by (cases e) auto
    next
      case (ok s0)
      then have "checkpoint s = Inr s0" by simp
      from checkpoint_ok [OF this] have d0: "scope_depths s0 = scope_depths s" .
      show ?thesis
      proof (cases "is_fixed_at s0 lit c_fixed_truth \<or> base + offset \<le> m_stamp s0 (var lit)")
        case True
        with ok(2) have "compute_wnb_pass first tbl base change s0 = Some y"
          by (auto simp: Let_def split: if_splits)
        from Cons.IH [OF this] d0 show ?thesis by simp
      next
        case nf: False
        with ok(2)
        have "obind (of_option (push_lookahead1 lit (base + offset) (reset_wnb_lit lit s0))) (\<lambda>s1.
              obind (if \<not> first then do_double lit base s1 else oret (base, s1)) (\<lambda>(base', s2).
                let unsat = inconsistent s2;
                    s3 = pop_lookahead1 lit s2
                in if unsat then
                     obind (of_result (reset_wnb s3)) (\<lambda>s4.
                     obind (of_option (propagate (assign (neg lit) s4))) (\<lambda>s5.
                       compute_wnb_pass first tbl base' True (init_wnb s5)))
                   else
                     obind (update_wnb lit (base + offset) s3) (\<lambda>s4.
                       compute_wnb_pass first tbl base' change s4))) = Some y"
          by (simp add: Let_def)
        from obind_of_optionD [OF this] obtain s1 where
          p: "push_lookahead1 lit (base + offset) (reset_wnb_lit lit s0) = Some s1"
          and r: "obind (if \<not> first then do_double lit base s1 else oret (base, s1)) (\<lambda>(base', s2).
                let unsat = inconsistent s2;
                    s3 = pop_lookahead1 lit s2
                in if unsat then
                     obind (of_result (reset_wnb s3)) (\<lambda>s4.
                     obind (of_option (propagate (assign (neg lit) s4))) (\<lambda>s5.
                       compute_wnb_pass first tbl base' True (init_wnb s5)))
                   else
                     obind (update_wnb lit (base + offset) s3) (\<lambda>s4.
                       compute_wnb_pass first tbl base' change s4)) = Some y"
          by blast
        from scope_depths_probe [OF p] d0 have d1: "scope_depths s1 = scope_depths s" by simp
        have dd: "sum_inv (\<lambda>(b, s'). scope_depths s' = scope_depths s1)
                    (\<lambda>e s'. e = Vector_bounds) z"
          if "(if \<not> first then do_double lit base s1 else oret (base, s1)) = Some z" for z
          using that do_double_inv [of lit base s1 z] by (auto split: if_splits)
        from r show ?thesis
        proof (cases rule: obind_SomeE)
          case (err e)
          with dd [OF err(1)] show ?thesis by (cases e) auto
        next
          case (ok x)
          obtain base' s2 where x: "x = (base', s2)" by (cases x)
          from dd [OF ok(1)] x d1 have d2: "scope_depths s2 = scope_depths s" by simp
          define s3 where "s3 = pop_lookahead1 lit s2"
          have d3: "scope_depths s3 = scope_depths s" by (simp add: s3_def d2)
          show ?thesis
          proof (cases "inconsistent s2")
            case True
            with ok(2) x
            have "obind (of_result (reset_wnb s3)) (\<lambda>s4.
                     obind (of_option (propagate (assign (neg lit) s4))) (\<lambda>s5.
                       compute_wnb_pass first tbl base' True (init_wnb s5))) = Some y"
              by (simp add: Let_def s3_def)
            then show ?thesis
            proof (cases rule: obind_SomeE)
              case (err e)
              then show ?thesis using reset_wnb_error [of s3 "fst e" "snd e"] by (cases e) auto
            next
              case (ok s4)
              then have rs: "reset_wnb s3 = Inr s4" by simp
              from obind_of_optionD [OF ok(2)] obtain s5 where
                pr: "propagate (assign (neg lit) s4) = Some s5"
                and cw: "compute_wnb_pass first tbl base' True (init_wnb s5) = Some y"
                by blast
              from scope_depths_propagate [OF pr] reset_wnb_ok [OF rs] d3
              have "scope_depths (init_wnb s5) = scope_depths s" by simp
              with Cons.IH [OF cw] show ?thesis by simp
            qed
          next
            case False
            with ok(2) x
            have "obind (update_wnb lit (base + offset) s3) (\<lambda>s4.
                       compute_wnb_pass first tbl base' change s4) = Some y"
              by (simp add: Let_def s3_def)
            then show ?thesis
            proof (cases rule: obind_SomeE)
              case (err e)
              with update_wnb_ok [OF err(1)] show ?thesis by auto
            next
              case (ok s4)
              from update_wnb_ok [OF ok(1)] have "lims s4 = lims s3" by auto
              from scope_depths_lims [OF this] d3 have "scope_depths s4 = scope_depths s" by simp
              with Cons.IH [OF ok(2)] show ?thesis by simp
            qed
          qed
        qed
      qed
    qed
  qed
qed

lemma compute_wnb_loop_inv:
  assumes major: "compute_wnb_loop base change first s = Some y"
  shows "sum_inv (\<lambda>s'. scope_depths s' = scope_depths s)
           (\<lambda>e s'. e \<noteq> Vector_bounds \<longrightarrow> scope_depths s' = scope_depths s) y"
proof (rule compute_wnb_loop.raw_induct [OF _ major], goal_cases)
  case (1 compute_wnb_loop' base change first s y)
  show ?case
  proof (cases "change \<and> \<not> inconsistent s")
    case False
    with 1(2) show ?thesis by auto
  next
    case True
    with 1(2)
    have "obind (compute_wnb_pass first (m_lookahead s) base False s) (\<lambda>(base', change', s1).
          if c_fixed_truth - 2 * length (m_lookahead s1) < base' then oret s1
          else
            obind (of_result (reset_wnb s1)) (\<lambda>s2.
              if first \<and> \<not> change'
              then compute_wnb_loop' base' True False (init_wnb s2)
              else compute_wnb_loop' base' change' first (init_wnb s2))) = Some y"
      by simp
    then show ?thesis
    proof (cases rule: obind_SomeE)
      case (err e)
      with compute_wnb_pass_inv [OF err(1)] show ?thesis by (cases e) auto
    next
      case (ok x)
      obtain base' change' s1 where x: "x = (base', change', s1)" by (cases x)
      from compute_wnb_pass_inv [OF ok(1)] x have d1: "scope_depths s1 = scope_depths s" by simp
      show ?thesis
      proof (cases "c_fixed_truth - 2 * length (m_lookahead s1) < base'")
        case True
        with ok(2) x d1 show ?thesis by auto
      next
        case False
        with ok(2) x
        have "obind (of_result (reset_wnb s1)) (\<lambda>s2.
              if first \<and> \<not> change'
              then compute_wnb_loop' base' True False (init_wnb s2)
              else compute_wnb_loop' base' change' first (init_wnb s2)) = Some y"
          by simp
        then show ?thesis
        proof (cases rule: obind_SomeE)
          case (err e)
          then show ?thesis using reset_wnb_error [of s1 "fst e" "snd e"] by (cases e) auto
        next
          case (ok s2)
          then have rs: "reset_wnb s1 = Inr s2" by simp
          from reset_wnb_ok [OF rs] d1 have d2: "scope_depths (init_wnb s2) = scope_depths s"
            by simp
          from ok(2) obtain c f where "compute_wnb_loop' base' c f (init_wnb s2) = Some y"
            by (auto split: if_splits)
          from 1(1) [OF this] d2 show ?thesis by simp
        qed
      qed
    qed
  qed
qed

lemma compute_wnb_inv:
  assumes "compute_wnb s = Some y"
  shows "sum_inv (\<lambda>s'. scope_depths s' = scope_depths s)
           (\<lambda>e s'. e \<noteq> Vector_bounds \<longrightarrow> scope_depths s' = wnb_bump (scope_depths s)) y"
proof -
  from assms have "obind (compute_wnb_loop 2 True True (init_wnb s))
      (\<lambda>s1. of_result (reset_wnb s1)) = Some y"
    by (simp add: compute_wnb_def)
  then show ?thesis
  proof (cases rule: obind_SomeE)
    case (err e)
    with compute_wnb_loop_inv [OF err(1)] show ?thesis by (cases e) auto
  next
    case (ok s1)
    from compute_wnb_loop_inv [OF ok(1)]
    have d1: "scope_depths s1 = wnb_bump (scope_depths s)" by simp
    from ok(2) have r: "reset_wnb s1 = y" by simp
    show ?thesis
    proof (cases y)
      case (Inl x)
      with r reset_wnb_error [of s1 "fst x" "snd x"] show ?thesis by (cases x) auto
    next
      case (Inr s2)
      with r reset_wnb_ok [of s1 s2] d1 show ?thesis by simp
    qed
  qed
qed

subsection \<open>Choosing a literal\<close>

lemma lims_select_literal_loop [simp]:
  "lims (snd (select_literal_loop tbl l h count s)) = lims s"
proof (induction tbl arbitrary: l h count s)
  case Nil
  then show ?case by simp
next
  case (Cons a tbl)
  obtain lit offset where a: "a = (lit, offset)" by (cases a)
  have r: "lims (snd (rand n s)) = lims s" for n
    by (simp add: rand_def split: list.splits)
  show ?case
    unfolding a select_literal_loop.simps
    by (simp add: Let_def Cons.IH r case_prod_beta)
qed

lemma lims_select_literal [simp]: "lims (snd (select_literal s)) = lims s"
  by (simp add: select_literal_def)

lemma choose_loop_inv:
  assumes major: "choose_loop s = Some y"
  shows "sum_inv (\<lambda>(l, s'). scope_depths s' = scope_depths s)
           (\<lambda>e s'. e \<noteq> Vector_bounds \<longrightarrow> scope_depths s' = wnb_bump (scope_depths s)) y"
proof (rule choose_loop.raw_induct [OF _ major], goal_cases)
  case (1 choose_loop' s y)
  from obind_of_optionD [OF 1(2)] obtain s1 where
    p: "pre_select s = Some s1"
    and r: "(if m_lookahead s1 = [] then oret (null_literal, s1)
       else
         obind (compute_wnb s1) (\<lambda>s2.
           if inconsistent s2 then oret (null_literal, s2)
           else
             let (l, s3) = select_literal s2 in
             if l = null_literal then choose_loop' s3 else oret (l, s3))) = Some y"
    by blast
  from lims_pre_select [OF p] have d1: "scope_depths s1 = scope_depths s"
    by (rule scope_depths_lims)
  show ?case
  proof (cases "m_lookahead s1 = []")
    case True
    with r d1 show ?thesis by auto
  next
    case False
    with r have "obind (compute_wnb s1) (\<lambda>s2.
           if inconsistent s2 then oret (null_literal, s2)
           else
             let (l, s3) = select_literal s2 in
             if l = null_literal then choose_loop' s3 else oret (l, s3)) = Some y"
      by simp
    then show ?thesis
    proof (cases rule: obind_SomeE)
      case (err e)
      with compute_wnb_inv [OF err(1)] d1 show ?thesis by (cases e) auto
    next
      case (ok s2)
      from compute_wnb_inv [OF ok(1)] d1 have d2: "scope_depths s2 = scope_depths s" by simp
      obtain l s3 where sl: "select_literal s2 = (l, s3)" by (cases "select_literal s2")
      with lims_select_literal [of s2] have "lims s3 = lims s2" by simp
      from scope_depths_lims [OF this] d2 have d3: "scope_depths s3 = scope_depths s" by simp
      show ?thesis
      proof (cases "inconsistent s2 \<or> l \<noteq> null_literal")
        case True
        with ok(2) sl d2 d3 show ?thesis by (auto split: if_splits)
      next
        case False
        with ok(2) sl have "choose_loop' s3 = Some y" by simp
        from 1(1) [OF this] d3 show ?thesis by simp
      qed
    qed
  qed
qed

subsection \<open>The scopes of the search\<close>

lemma limsD:
  assumes "lims a = lims b"
  shows "m_binary_trail_lim a = m_binary_trail_lim b" "m_trail_lim a = m_trail_lim b"
    "m_num_tc1_lim a = m_num_tc1_lim b" "m_retired_clause_lim a = m_retired_clause_lim b"
    "m_retired_ternary_lim a = m_retired_ternary_lim b" "m_qhead_lim a = m_qhead_lim b"
  using assms by (simp_all add: lims_def)

lemma push_scopes_equal:
  assumes "push lit level s = Some s'"
  shows "scopes_equal s' = scopes_equal s"
proof -
  from scope_ext_lims [OF push_scope_ext [OF assms]]
  have "lims s' = lims (push_marks lit s)" .
  from limsD [OF this] show ?thesis
    by (simp add: scopes_equal_def push_marks_def)
qed

lemma lims_attach_clause [simp]: "lims (attach_clause off s) = lims s"
  by (simp add: attach_clause_def Let_def attach_ternary_def push_watch_def)

lemma lims_attach_ternary [simp]: "lims (attach_ternary u v w s) = lims s"
  by (simp add: attach_ternary_def push_watch_def)

lemma lims_freevars_insert [simp]: "lims (freevars_insert v s) = lims s"
  by (simp add: freevars_insert_def)

lemma lims_del_binary: "del_binary idx s = Inr s' \<Longrightarrow> lims s' = lims s"
  by (auto simp: del_binary_def Let_def split: if_splits)

lemma lims_del_binaries: "del_binaries idxs s = Inr s' \<Longrightarrow> lims s' = lims s"
proof (induction idxs arbitrary: s)
  case Nil
  then show ?case by simp
next
  case (Cons idx idxs)
  from Cons.prems obtain s1 where a: "del_binary idx s = Inr s1"
    and b: "del_binaries idxs s1 = Inr s'"
    by (cases "del_binary idx s") (auto simp: rbind_def)
  from Cons.IH [OF b] lims_del_binary [OF a] show ?case by simp
qed

text \<open>Each block of \<^verbatim>\<open>pop\<close> that returns has taken one entry from its scope stack.\<close>

lemma pop_assumption_lims: "pop_assumption s = Inr s' \<Longrightarrow> lims s' = lims s"
  by (auto simp: pop_assumption_def Let_def split: if_splits)

lemma pop_trail_lims:
  assumes "pop_trail s = Inr s'"
  shows "m_trail_lim s \<noteq> []" "lims s' = lims (s\<lparr>m_trail_lim := butlast (m_trail_lim s)\<rparr>)"
proof -
  define u where "u = fold (\<lambda>l t. freevars_insert (var l) (set_undef l t))
                        (rev (drop (last (m_trail_lim s)) (m_trail s))) s"
  have "lims u = lims s" unfolding u_def by (rule lims_fold) simp
  note f = limsD [OF this]
  from assms show "m_trail_lim s \<noteq> []" by (auto simp: pop_trail_def split: if_splits)
  with assms have "s' = u\<lparr>m_trail := take (last (m_trail_lim s)) (m_trail u),
                           m_trail_lim := butlast (m_trail_lim u)\<rparr>"
    by (auto simp: pop_trail_def Let_def u_def split: if_splits)
  with f show "lims s' = lims (s\<lparr>m_trail_lim := butlast (m_trail_lim s)\<rparr>)"
    by (simp add: lims_def)
qed

lemma pop_num_tc1_lims:
  assumes "pop_num_tc1 s = Inr s'"
  shows "m_num_tc1_lim s \<noteq> []" "lims s' = lims (s\<lparr>m_num_tc1_lim := butlast (m_num_tc1_lim s)\<rparr>)"
  using assms by (auto simp: pop_num_tc1_def lims_def split: if_splits)

lemma pop_retired_clauses_lims:
  assumes "pop_retired_clauses s = Inr s'"
  shows "m_retired_clause_lim s \<noteq> []"
    "lims s' = lims (s\<lparr>m_retired_clause_lim := butlast (m_retired_clause_lim s)\<rparr>)"
proof -
  define u where "u = fold attach_clause (drop (last (m_retired_clause_lim s)) (m_retired_clauses s)) s"
  have "lims u = lims s" unfolding u_def by (rule lims_fold) simp
  note f = limsD [OF this]
  from assms show "m_retired_clause_lim s \<noteq> []"
    by (auto simp: pop_retired_clauses_def split: if_splits)
  with assms have "s' = u\<lparr>m_retired_clauses := resize (last (m_retired_clause_lim s)) (m_retired_clauses u),
                           m_retired_clause_lim := butlast (m_retired_clause_lim u)\<rparr>"
    by (auto simp: pop_retired_clauses_def Let_def u_def split: if_splits)
  with f show "lims s' = lims (s\<lparr>m_retired_clause_lim := butlast (m_retired_clause_lim s)\<rparr>)"
    by (simp add: lims_def)
qed

lemma pop_retired_ternary_lims:
  assumes "pop_retired_ternary s = Inr s'"
  shows "m_retired_ternary_lim s \<noteq> []"
    "lims s' = lims (s\<lparr>m_retired_ternary_lim := butlast (m_retired_ternary_lim s)\<rparr>)"
proof -
  define u where "u = fold (\<lambda>(u, v, w). attach_ternary u v w)
      (drop (last (m_retired_ternary_lim s)) (m_retired_ternary s)) s"
  have "lims u = lims s" unfolding u_def by (rule lims_fold) (simp add: case_prod_beta)
  note f = limsD [OF this]
  from assms show "m_retired_ternary_lim s \<noteq> []"
    by (auto simp: pop_retired_ternary_def split: if_splits)
  with assms have "s' = u\<lparr>m_retired_ternary := take (last (m_retired_ternary_lim s)) (m_retired_ternary u),
                           m_retired_ternary_lim := butlast (m_retired_ternary_lim u)\<rparr>"
    by (auto simp: pop_retired_ternary_def Let_def u_def split: if_splits)
  with f show "lims s' = lims (s\<lparr>m_retired_ternary_lim := butlast (m_retired_ternary_lim s)\<rparr>)"
    by (simp add: lims_def)
qed

lemma pop_binaries_lims:
  assumes "pop_binaries s = Inr s'"
  shows "m_binary_trail_lim s \<noteq> []"
    "lims s' = lims (s\<lparr>m_binary_trail_lim := butlast (m_binary_trail_lim s)\<rparr>)"
proof -
  from assms show ne: "m_binary_trail_lim s \<noteq> []"
    by (auto simp: pop_binaries_def split: if_splits)
  with assms obtain u where
    d: "del_binaries (rev (drop (last (m_binary_trail_lim s)) (m_binary_trail s))) s = Inr u"
    and s': "s' = u\<lparr>m_binary_trail := take (last (m_binary_trail_lim s)) (m_binary_trail u),
                     m_binary_trail_lim := butlast (m_binary_trail_lim u)\<rparr>"
    by (cases "del_binaries (rev (drop (last (m_binary_trail_lim s)) (m_binary_trail s))) s")
       (auto simp: pop_binaries_def Let_def rbind_def split: if_splits)
  note f = limsD [OF lims_del_binaries [OF d]]
  with s' show "lims s' = lims (s\<lparr>m_binary_trail_lim := butlast (m_binary_trail_lim s)\<rparr>)"
    by (simp add: lims_def)
qed

lemma pop_qhead_lims:
  assumes "pop_qhead s = Inr s'"
  shows "m_qhead_lim s \<noteq> []" "lims s' = lims (s\<lparr>m_qhead_lim := butlast (m_qhead_lim s)\<rparr>)"
  using assms by (auto simp: pop_qhead_def lims_def split: if_splits)

lemma rbind_InrE:
  assumes "rbind r f = Inr s'"
  obtains s1 where "r = Inr s1" "f s1 = Inr s'"
  using assms by (cases r) (auto simp: rbind_def)

lemma pop_scope_lengths:
  assumes "pop s = Inr s'"
  shows "length (m_trail_lim s) = Suc (length (m_trail_lim s'))"
    "length (m_qhead_lim s) = Suc (length (m_qhead_lim s'))"
    "length (m_binary_trail_lim s) = Suc (length (m_binary_trail_lim s'))"
    "length (m_num_tc1_lim s) = Suc (length (m_num_tc1_lim s'))"
    "length (m_retired_clause_lim s) = Suc (length (m_retired_clause_lim s'))"
    "length (m_retired_ternary_lim s) = Suc (length (m_retired_ternary_lim s'))"
proof -
  from assms [unfolded pop_def] obtain s1 s2 s3 s4 s5 s6 where
    b: "pop_assumption s = Inr s1" "pop_trail s1 = Inr s2" "pop_num_tc1 s2 = Inr s3"
      "pop_retired_clauses s3 = Inr s4" "pop_retired_ternary s4 = Inr s5"
      "pop_binaries s5 = Inr s6" "pop_qhead s6 = Inr s'"
    by (elim rbind_InrE) blast
  note l1 = limsD [OF pop_assumption_lims [OF b(1)]]
  note l2 = limsD [OF pop_trail_lims(2) [OF b(2)]] and n2 = pop_trail_lims(1) [OF b(2)]
  note l3 = limsD [OF pop_num_tc1_lims(2) [OF b(3)]] and n3 = pop_num_tc1_lims(1) [OF b(3)]
  note l4 = limsD [OF pop_retired_clauses_lims(2) [OF b(4)]]
    and n4 = pop_retired_clauses_lims(1) [OF b(4)]
  note l5 = limsD [OF pop_retired_ternary_lims(2) [OF b(5)]]
    and n5 = pop_retired_ternary_lims(1) [OF b(5)]
  note l6 = limsD [OF pop_binaries_lims(2) [OF b(6)]] and n6 = pop_binaries_lims(1) [OF b(6)]
  note l7 = limsD [OF pop_qhead_lims(2) [OF b(7)]] and n7 = pop_qhead_lims(1) [OF b(7)]
  have len: "xs \<noteq> [] \<Longrightarrow> length xs = Suc (length (butlast xs))" for xs :: "nat list"
    by (cases xs rule: rev_cases) simp_all
  show "length (m_trail_lim s) = Suc (length (m_trail_lim s'))"
    using len [OF n2] l1 l2 l3 l4 l5 l6 l7 by simp
  show "length (m_qhead_lim s) = Suc (length (m_qhead_lim s'))"
    using len [OF n7] l1 l2 l3 l4 l5 l6 l7 by simp
  show "length (m_binary_trail_lim s) = Suc (length (m_binary_trail_lim s'))"
    using len [OF n6] l1 l2 l3 l4 l5 l6 l7 by simp
  show "length (m_num_tc1_lim s) = Suc (length (m_num_tc1_lim s'))"
    using len [OF n3] l1 l2 l3 l4 l5 l6 l7 by simp
  show "length (m_retired_clause_lim s) = Suc (length (m_retired_clause_lim s'))"
    using len [OF n4] l1 l2 l3 l4 l5 l6 l7 by simp
  show "length (m_retired_ternary_lim s) = Suc (length (m_retired_ternary_lim s'))"
    using len [OF n5] l1 l2 l3 l4 l5 l6 l7 by simp
qed

lemma pop_scopes_equal: "pop s = Inr s' \<Longrightarrow> scopes_equal s' = scopes_equal s"
  using pop_scope_lengths [of s s'] by (auto simp: scopes_equal_def)

lemma backtrack_inv:
  "scopes_equal s \<Longrightarrow> backtrack trail s = Some y \<Longrightarrow>
   sum_inv (\<lambda>(ok, tr, s'). scopes_equal s') (\<lambda>e s'. e = Vector_bounds) y"
proof (induction trail s arbitrary: y rule: backtrack.induct)
  case (1 trail s)
  show ?case
  proof (cases "inconsistent s \<and> trail \<noteq> []")
    case False
    with "1.prems" show ?thesis
      by (auto simp: backtrack.simps [of trail s] split: if_splits)
  next
    case True
    with "1.prems"(2)
    have "obind (of_result (pop s)) (\<lambda>s1.
          obind (of_option (propagate (assign (neg (last trail)) (flip_prefix s1)))) (\<lambda>s2.
            backtrack (butlast trail) s2)) = Some y"
      by (simp add: backtrack.simps [of trail s])
    then show ?thesis
    proof (cases rule: obind_SomeE)
      case (err e)
      then show ?thesis using pop_error [of s "fst e" "snd e"] by (cases e) auto
    next
      case (ok s1)
      then have p: "pop s = Inr s1" by simp
      from obind_of_optionD [OF ok(2)] obtain s2 where
        pr: "propagate (assign (neg (last trail)) (flip_prefix s1)) = Some s2"
        and b: "backtrack (butlast trail) s2 = Some y"
        by blast
      from scope_depths_propagate [OF pr]
      have "scope_depths s2 = scope_depths s1"
        using scope_depths_lims [of "flip_prefix s1" s1] by simp
      from scopes_equal_depths [OF this] pop_scopes_equal [OF p] "1.prems"(1)
      have "scopes_equal s2" by simp
      from "1.IH" [OF _ _ this b] True show ?thesis by simp
    qed
  qed
qed

lemma search_loop_inv:
  assumes major: "search_loop trail s = Some y"
  shows "scopes_equal s \<longrightarrow>
     sum_inv (\<lambda>(r, s'). scopes_equal s')
       (\<lambda>e s'. e \<noteq> Vector_bounds \<longrightarrow> scopes_equal s' \<or> wnb_scope_open s') y"
proof (rule search_loop.raw_induct [OF _ major], goal_cases)
  case (1 search_loop' trail s y)
  show ?case
  proof
    assume eq: "scopes_equal s"
    have bt: "sum_inv (\<lambda>(r, s'). scopes_equal s')
        (\<lambda>e s'. e \<noteq> Vector_bounds \<longrightarrow> scopes_equal s' \<or> wnb_scope_open s') y"
      if t: "scopes_equal t"
        and b: "obind (backtrack trail t) (\<lambda>(ok, trail1, s2).
           if \<not> ok then oret (l_false, s2) else search_loop' trail1 s2) = Some y" for t
      using b
    proof (cases rule: obind_SomeE)
      case (err e)
      with backtrack_inv [OF t err(1)] show ?thesis by (cases e) auto
    next
      case (ok x)
      obtain okf trail1 s2 where x: "x = (okf, trail1, s2)" by (cases x)
      from backtrack_inv [OF t ok(1)] x have e2: "scopes_equal s2" by simp
      show ?thesis
      proof (cases okf)
        case False
        with ok(2) x e2 show ?thesis by auto
      next
        case True
        with ok(2) x have "search_loop' trail1 s2 = Some y" by simp
        from 1(1) [OF this] e2 show ?thesis by simp
      qed
    qed
    from 1(2) show "sum_inv (\<lambda>(r, s'). scopes_equal s')
        (\<lambda>e s'. e \<noteq> Vector_bounds \<longrightarrow> scopes_equal s' \<or> wnb_scope_open s') y"
    proof (cases rule: obind_SomeE)
      case (err e)
      then have "checkpoint (inc_istamp s) = Inl (fst e, snd e)" by simp
      from checkpoint_error [OF this]
      have "scope_depths (snd e) = scope_depths s"
        using scope_depths_lims [of "inc_istamp s" s] by simp
      from scopes_equal_depths [OF this] eq err show ?thesis by (cases e) auto
    next
      case (ok s1)
      then have "checkpoint (inc_istamp s) = Inr s1" by simp
      from checkpoint_ok [OF this]
      have d1: "scope_depths s1 = scope_depths s"
        using scope_depths_lims [of "inc_istamp s" s] by simp
      from scopes_equal_depths [OF this] eq have e1: "scopes_equal s1" by simp
      show ?thesis
      proof (cases "inconsistent s1")
        case True
        with ok(2) show ?thesis by (intro bt [OF e1]) simp
      next
        case False
        with ok(2)
        have "obind (choose_lit s1) (\<lambda>(l, s2).
           if inconsistent s2 then
             obind (backtrack trail s2) (\<lambda>(ok, trail1, s3).
               if \<not> ok then oret (l_false, s3) else search_loop' trail1 s3)
           else if l = null_literal then oret (l_true, s2)
           else
             obind (of_option (push l c_fixed_truth s2)) (\<lambda>s3.
               search_loop' (trail @ [l]) s3)) = Some y"
          by simp
        then show ?thesis
        proof (cases rule: obind_SomeE)
          case (err e)
          then have "choose_loop s1 = Some (Inl e)" by (simp add: choose_lit_def)
          from choose_loop_inv [OF this]
          have "fst e \<noteq> Vector_bounds \<longrightarrow> scope_depths (snd e) = wnb_bump (scope_depths s1)"
            by (cases e) simp
          with wnb_scope_open_bump [of "snd e" s1] e1 err(2) show ?thesis
            by (cases e) auto
        next
          case (ok x)
          obtain l s2 where x: "x = (l, s2)" by (cases x)
          from ok(1) have "choose_loop s1 = Some (Inr x)" by (simp add: choose_lit_def)
          from choose_loop_inv [OF this] x have "scope_depths s2 = scope_depths s1" by simp
          from scopes_equal_depths [OF this] e1 have e2: "scopes_equal s2" by simp
          show ?thesis
          proof (cases "inconsistent s2")
            case True
            with ok(2) x show ?thesis by (intro bt [OF e2]) simp
          next
            case ni: False
            show ?thesis
            proof (cases "l = null_literal")
              case True
              with ok(2) x ni e2 show ?thesis by auto
            next
              case False
              with ok(2) x ni
              have "obind (of_option (push l c_fixed_truth s2)) (\<lambda>s3.
                  search_loop' (trail @ [l]) s3) = Some y"
                by simp
              from obind_of_optionD [OF this] obtain s3 where
                p: "push l c_fixed_truth s2 = Some s3"
                and r: "search_loop' (trail @ [l]) s3 = Some y"
                by blast
              from push_scopes_equal [OF p] e2 have "scopes_equal s3" by simp
              with 1(1) [OF r] show ?thesis by simp
            qed
          qed
        qed
      qed
    qed
  qed
qed

lemma scopes_upd [simp]:
  "scopes_equal (s\<lparr>m_level := x\<rparr>) = scopes_equal s"
  "scopes_equal (s\<lparr>m_model := y\<rparr>) = scopes_equal s"
  "scopes_equal (s\<lparr>m_search_mode := z\<rparr>) = scopes_equal s"
  "wnb_scope_open (s\<lparr>m_level := x\<rparr>) = wnb_scope_open s"
  by (simp_all add: scopes_equal_def wnb_scope_open_def)

lemma search_inv:
  assumes "search s = Some y" "scopes_equal s"
  shows "sum_inv (\<lambda>(r, s'). scopes_equal s')
       (\<lambda>e s'. e \<noteq> Vector_bounds \<longrightarrow> scopes_equal s' \<or> wnb_scope_open s') y"
proof -
  define s0 where "s0 = s\<lparr>m_model := [], m_level := c_fixed_truth, m_search_mode := searching\<rparr>"
  have e0: "scopes_equal s0" using assms(2) by (simp add: s0_def)
  from assms(1) obtain y0 where l: "search_loop [] s0 = Some y0"
    by (auto simp: search_def s0_def split: option.splits)
  from search_loop_inv [OF l] e0
  have i: "sum_inv (\<lambda>(r, s'). scopes_equal s')
       (\<lambda>e s'. e \<noteq> Vector_bounds \<longrightarrow> scopes_equal s' \<or> wnb_scope_open s') y0"
    by simp
  show ?thesis
  proof (cases y0)
    case (Inl x)
    obtain e s1 where x: "x = (e, s1)" by (cases x)
    with Inl l assms(1) have "y = Inl (e, s1\<lparr>m_level := m_level s\<rparr>)"
      by (simp add: search_def s0_def)
    with i Inl x show ?thesis by simp
  next
    case (Inr x)
    obtain r s1 where x: "x = (r, s1)" by (cases x)
    with Inr l assms(1) have "y = Inr (r, s1\<lparr>m_level := m_level s\<rparr>)"
      by (simp add: search_def s0_def)
    with i Inr x show ?thesis by simp
  qed
qed

subsection \<open>Initialization\<close>

lemma lims_init_var [simp]: "lims (init_var v s) = lims s"
  by (simp add: init_var_def Let_def)

lemma lims_init: "init s = Some s' \<Longrightarrow> lims s' = lims s"
proof -
  assume a: "init s = Some s'"
  define s1 where "s1 = s\<lparr>m_delta_trigger := real (m_num_vars s div 10),
                  m_config := (m_config s)\<lparr>m_dl_success := 0.8\<rparr>,
                  m_inconsistent := False, m_qhead := 0, m_bstamp_id := 0\<rparr>"
  define s2 where "s2 = fold init_var [0..<m_num_vars s1] s1"
  define s3 where "s3 = fold (\<lambda>l_idx t. fold (copy_binary l_idx) (s_watches (m_s t) ! l_idx) t)
                 [0..<length (s_watches (m_s s2))] s2"
  define s4 where "s4 = copy_clauses (s_learned (m_s s3)) (copy_clauses (s_clauses (m_s s3)) s3)"
  define s5 where "s5 = fold copy_unit (take (s_init_trail_size (m_s s4)) (s_trail (m_s s4))) s4"
  define s6 where "s6 = fold copy_externals [0..<2 * m_num_vars s5] s5"
  from a obtain s7 where p: "propagate s6 = Some s7"
    and s': "s' = s7\<lparr>m_qhead := length (m_trail s7)\<rparr>"
    unfolding init_def Let_def s1_def [symmetric] s2_def [symmetric] s3_def [symmetric]
      s4_def [symmetric] s5_def [symmetric] s6_def [symmetric]
    by (auto split: option.splits)
  have "lims s2 = lims s" unfolding s2_def by (simp add: lims_fold s1_def)
  moreover have "scope_ext s2 s3" unfolding s3_def
    by (intro scope_ext_fold_copy_binaries scope_ext_refl)
  then have "scope_ext s2 s4" unfolding s4_def by (intro scope_ext_copy_clauses)
  then have "scope_ext s2 s5" unfolding s5_def by (intro scope_ext_fold_copy_unit)
  then have "scope_ext s2 s6" unfolding s6_def by (intro scope_ext_fold_copy_externals)
  with p have "scope_ext s2 s7" by (rule scope_ext_propagate)
  then have "lims s7 = lims s2" by (rule scope_ext_lims)
  ultimately show ?thesis by (simp add: s')
qed

lemma lims_init_search: "init_search s = Some s' \<Longrightarrow> lims s' = lims s"
proof -
  assume a: "init_search s = Some s'"
  then obtain s1 where i: "init (s\<lparr>m_search_mode := searching, m_level := c_fixed_truth\<rparr>) = Some s1"
    and s': "s' = s1\<lparr>m_level := m_level s\<rparr>"
    by (auto simp: init_search_def split: option.splits)
  from lims_init [OF i] show ?thesis by (simp add: s')
qed

subsection \<open>The scope stacks after an operation\<close>

lemma wnb_scope_open_not_equal: "wnb_scope_open s \<Longrightarrow> \<not> scopes_equal s"
  by (auto simp: wnb_scope_open_def scopes_equal_def)




end
